theory Spec2Isabelle
  imports Main
begin

section \<open>The static tables of Parser.ts\<close>

text \<open>
  Tag names are strings. The JavaScript sets are lists here, and \<open>Set.has\<close> is list
  membership, so that every table can be evaluated.
\<close>

definition formTags :: "string list" where
  "formTags = [''input'', ''option'', ''optgroup'', ''select'', ''button'',
               ''datalist'', ''textarea'']"

definition pTag :: "string list" where
  "pTag = [''p'']"

definition openImpliesCloseTable :: "(string \<times> string list) list" where
  "openImpliesCloseTable =
    [(''tr'', [''tr'', ''th'', ''td'']),
     (''th'', [''th'']),
     (''td'', [''thead'', ''th'', ''td'']),
     (''body'', [''head'', ''link'', ''script'']),
     (''li'', [''li'']),
     (''p'', pTag),
     (''h1'', pTag),
     (''h2'', pTag),
     (''h3'', pTag),
     (''h4'', pTag),
     (''h5'', pTag),
     (''h6'', pTag),
     (''select'', formTags),
     (''input'', formTags),
     (''output'', formTags),
     (''button'', formTags),
     (''datalist'', formTags),
     (''textarea'', formTags),
     (''option'', [''option'']),
     (''optgroup'', [''optgroup'', ''option'']),
     (''dd'', [''dt'', ''dd'']),
     (''dt'', [''dt'', ''dd'']),
     (''address'', pTag),
     (''article'', pTag),
     (''aside'', pTag),
     (''blockquote'', pTag),
     (''details'', pTag),
     (''div'', pTag),
     (''dl'', pTag),
     (''fieldset'', pTag),
     (''figcaption'', pTag),
     (''figure'', pTag),
     (''footer'', pTag),
     (''form'', pTag),
     (''header'', pTag),
     (''hr'', pTag),
     (''main'', pTag),
     (''nav'', pTag),
     (''ol'', pTag),
     (''pre'', pTag),
     (''section'', pTag),
     (''table'', pTag),
     (''ul'', pTag),
     (''rt'', [''rt'', ''rp'']),
     (''rp'', [''rt'', ''rp'']),
     (''tbody'', [''thead'', ''tbody'']),
     (''tfoot'', [''thead'', ''tbody''])]"

text \<open>
  \<open>openImpliesClose name\<close> is \<open>Some els\<close> exactly when
  \<open>hasOwnProperty.call(openImpliesClose, name)\<close> holds, and then \<open>els\<close> is
  \<open>openImpliesClose[name]\<close>.
\<close>

definition openImpliesClose :: "string \<Rightarrow> string list option" where
  "openImpliesClose name = map_of openImpliesCloseTable name"

definition voidElements :: "string list" where
  "voidElements =
    [''area'', ''base'', ''basefont'', ''br'', ''col'', ''command'', ''embed'', ''frame'',
     ''hr'', ''img'', ''input'', ''isindex'', ''keygen'', ''link'', ''meta'', ''param'',
     ''source'', ''track'', ''wbr'']"

definition foreignContextElements :: "string list" where
  "foreignContextElements = [''math'', ''svg'']"

definition htmlIntegrationElements :: "string list" where
  "htmlIntegrationElements =
    [''mi'', ''mo'', ''mn'', ''ms'', ''mtext'', ''annotation-xml'', ''foreignObject'',
     ''desc'', ''title'']"

section \<open>Options, handler and tokenizer\<close>

text \<open>
  \<open>ParserOptions\<close>: the fields the Parser reads. \<open>xmlMode\<close>,
  \<open>recognizeCDATA\<close> and \<open>recognizeSelfClosing\<close> are only ever tested for
  truthiness, so an absent field is \<open>False\<close>; \<open>lowerCaseTags\<close> and
  \<open>lowerCaseAttributeNames\<close> go through \<open>??\<close>, so an absent field is
  \<open>None\<close> (the second is \<open>lowerCaseAttributeNamesOpt\<close> here, the Parser having
  a field of the same name). \<open>decodeEntities\<close> and \<open>Tokenizer\<close> are read by the
  tokenizer only.
\<close>

record parserOptions =
  xmlMode :: bool
  lowerCaseTags :: "bool option"
  lowerCaseAttributeNamesOpt :: "bool option"
  recognizeCDATA :: bool
  recognizeSelfClosing :: bool

text \<open>
  \<open>Partial<Handler>\<close>: which callbacks the handler object has. The Parser itself only
  ever asks whether a callback is present and calls it.
\<close>

record handler =
  has_onparserinit :: bool
  has_onreset :: bool
  has_onend :: bool
  has_onerror :: bool
  has_onclosetag :: bool
  has_onopentagname :: bool
  has_onattribute :: bool
  has_onopentag :: bool
  has_ontext :: bool
  has_oncomment :: bool
  has_oncdatastart :: bool
  has_oncdataend :: bool
  has_oncommentend :: bool
  has_onprocessinginstruction :: bool
  has_onerbexpression :: bool
  has_onerbscriptlet :: bool

text \<open>
  The quote argument of \<open>onattribute\<close>: a quote string, \<open>null\<close> (no quotes around
  the value) or \<open>undefined\<close> (no value).
\<close>

datatype quote = Quote string | NoQuotes | NoValue

text \<open>
  A call received by the handler. \<open>'w\<close> is the type \<open>FileLocation\<close> of the
  \<open>where\<close> argument, which Tokenizer.ts declares and the Parser passes through
  untouched. The attributes object of \<open>onopentag\<close> is the association list of its
  own properties, in insertion order and with distinct keys.
\<close>

datatype 'w event =
    H_onparserinit
  | H_onreset
  | H_onend
  | H_onerror string 'w
  | H_onclosetag string 'w
  | H_onopentagname string 'w
  | H_onattribute string string 'w quote
  | H_onopentag string "(string \<times> string) list" 'w
  | H_ontext string 'w
  | H_oncomment string 'w
  | H_oncdatastart
  | H_oncdataend 'w
  | H_oncommentend 'w
  | H_onprocessinginstruction string string 'w
  | H_onerbexpression string 'w
  | H_onerbscriptlet string 'w

text \<open>
  What the Parser reads of its tokenizer (Tokenizer.ts is not part of the sources): the
  field \<open>sectionStart\<close> and the result of \<open>getAbsoluteIndex()\<close>. Offsets are
  JavaScript numbers holding integers.
\<close>

record tokenizer =
  sectionStart :: int
  absoluteIndex :: int

section \<open>The Parser state\<close>

text \<open>
  The fields of class \<open>Parser\<close>, and \<open>trace\<close>: the calls the handler has
  received so far, each with the public \<open>startIndex\<close> and \<open>endIndex\<close> as they
  stand while the callback runs.
\<close>

record 'w parser =
  startIndex :: int
  endIndex :: "int option"
  tagname :: string
  attribname :: string
  attribvalue :: string
  attribs :: "(string \<times> string) list option"
  stack :: "string list"
  foreignContext :: "bool list"
  cbs :: handler
  options :: parserOptions
  lowerCaseTagNames :: bool
  lowerCaseAttributeNames :: bool
  tokenizer :: tokenizer
  trace :: "('w event \<times> int \<times> int option) list"

definition emit :: "'w event \<Rightarrow> 'w parser \<Rightarrow> 'w parser" where
  "emit e s = s\<lparr>trace := trace s @ [(e, startIndex s, endIndex s)]\<rparr>"

text \<open>\<open>this.cbs.f?.(...)\<close>: the call happens when the callback is present.\<close>

definition call :: "bool \<Rightarrow> 'w event \<Rightarrow> 'w parser \<Rightarrow> 'w parser" where
  "call present e s = (if present then emit e s else s)"

text \<open>
  \<open>String.prototype.toLowerCase\<close> on names: strings are byte strings here and the
  ASCII letters are folded.
\<close>

definition lowerChar :: "char \<Rightarrow> char" where
  "lowerChar c =
     (case map_of (zip ''ABCDEFGHIJKLMNOPQRSTUVWXYZ'' ''abcdefghijklmnopqrstuvwxyz'') c of
        Some d \<Rightarrow> d
      | None \<Rightarrow> c)"

definition toLowerCase :: "string \<Rightarrow> string" where
  "toLowerCase name = map lowerChar name"

text \<open>The constructor; \<open>cbs ?? {}\<close> is a handler record with every field False.\<close>

definition newParser :: "handler \<Rightarrow> parserOptions \<Rightarrow> tokenizer \<Rightarrow> 'w parser" where
  "newParser h opts tk =
     call (has_onparserinit h) H_onparserinit
       \<lparr>startIndex = 0, endIndex = None, tagname = [], attribname = [],
        attribvalue = [], attribs = None, stack = [], foreignContext = [],
        cbs = h, options = opts,
        lowerCaseTagNames =
          (case lowerCaseTags opts of Some b \<Rightarrow> b | None \<Rightarrow> \<not> xmlMode opts),
        lowerCaseAttributeNames =
          (case lowerCaseAttributeNamesOpt opts of Some b \<Rightarrow> b | None \<Rightarrow> \<not> xmlMode opts),
        tokenizer = tk, trace = []\<rparr>"

section \<open>Tokenizer event handlers\<close>

definition updatePosition :: "int \<Rightarrow> 'w parser \<Rightarrow> 'w parser" where
  "updatePosition initialOffset s =
     (let s1 = (case endIndex s of
                  None \<Rightarrow>
                    if sectionStart (tokenizer s) \<le> initialOffset
                    then s\<lparr>startIndex := 0\<rparr>
                    else s\<lparr>startIndex := sectionStart (tokenizer s) - initialOffset\<rparr>
                | Some e \<Rightarrow> s\<lparr>startIndex := e + 1\<rparr>)
      in s1\<lparr>endIndex := Some (absoluteIndex (tokenizer s1))\<rparr>)"

definition ontext :: "string \<Rightarrow> 'w \<Rightarrow> 'w parser \<Rightarrow> 'w parser" where
  "ontext data w s =
     (let s1 = updatePosition 1 s;
          s2 = s1\<lparr>endIndex := map_option (\<lambda>e. e - 1) (endIndex s1)\<rparr>
      in call (has_ontext (cbs s2)) (H_ontext data w) s2)"

definition isVoidElement :: "'w parser \<Rightarrow> string \<Rightarrow> bool" where
  "isVoidElement s name \<longleftrightarrow> \<not> xmlMode (options s) \<and> name \<in> set voidElements"

definition onopentagend :: "'w \<Rightarrow> 'w parser \<Rightarrow> 'w parser" where
  "onopentagend w s =
     (let s1 = updatePosition 1 s;
          s2 = (case attribs s1 of
                  Some a \<Rightarrow>
                    (call (has_onopentag (cbs s1)) (H_onopentag (tagname s1) a w) s1)
                      \<lparr>attribs := None\<rparr>
                | None \<Rightarrow> s1);
          s3 = (if has_onclosetag (cbs s2) \<and> isVoidElement s2 (tagname s2)
                then emit (H_onclosetag (tagname s2) w) s2
                else s2)
      in s3\<lparr>tagname := []\<rparr>)"

text \<open>
  \<open>closeCurrentTag\<close>: \<open>this.stack[this.stack.length - 1] === name\<close> is false on an
  empty stack.
\<close>

definition closeCurrentTag :: "'w \<Rightarrow> 'w parser \<Rightarrow> 'w parser" where
  "closeCurrentTag w s =
     (let name = tagname s;
          s1 = onopentagend w s
      in if stack s1 \<noteq> [] \<and> last (stack s1) = name
         then (call (has_onclosetag (cbs s1)) (H_onclosetag name w) s1)
                \<lparr>stack := butlast (stack s1)\<rparr>
         else s1)"

text \<open>\<open>Array.prototype.lastIndexOf\<close>; \<open>None\<close> is the result \<open>-1\<close>.\<close>

fun lastIndexOf :: "'a list \<Rightarrow> 'a \<Rightarrow> nat option" where
  "lastIndexOf [] x = None"
| "lastIndexOf (y # ys) x =
     (case lastIndexOf ys x of
        Some i \<Rightarrow> Some (Suc i)
      | None \<Rightarrow> if y = x then Some 0 else None)"

text \<open>
  The loop \<open>while (pos--) this.cbs.onclosetag(this.stack.pop(), where)\<close> of
  \<open>onclosetag\<close>: the element is popped, then reported.
\<close>

fun popClose :: "nat \<Rightarrow> 'w \<Rightarrow> 'w parser \<Rightarrow> 'w parser" where
  "popClose 0 w s = s"
| "popClose (Suc k) w s =
     popClose k w (emit (H_onclosetag (last (stack s)) w) (s\<lparr>stack := butlast (stack s)\<rparr>))"

text \<open>Lines 277 to 286 of \<open>onopentagname\<close>, after the loop of implied closes.\<close>

definition pushOpenTag :: "string \<Rightarrow> 'w \<Rightarrow> 'w parser \<Rightarrow> 'w parser" where
  "pushOpenTag name w s =
     (let s1 = (if \<not> isVoidElement s name
                then (let s' = s\<lparr>stack := stack s @ [name]\<rparr>
                      in if name \<in> set foreignContextElements
                         then s'\<lparr>foreignContext := foreignContext s' @ [True]\<rparr>
                         else if name \<in> set htmlIntegrationElements
                         then s'\<lparr>foreignContext := foreignContext s' @ [False]\<rparr>
                         else s')
                else s);
          s2 = call (has_onopentagname (cbs s1)) (H_onopentagname name w) s1
      in if has_onopentag (cbs s2) then s2\<lparr>attribs := Some []\<rparr> else s2)"

text \<open>
  Lines 302 to 311 of \<open>onclosetag\<close>: the position is recomputed, and a foreign or
  integration-point name pops the foreign-context stack (\<open>pop\<close> on an empty array
  changes nothing). \<open>name\<close> is the name after case folding.
\<close>

definition beginClose :: "string \<Rightarrow> 'w parser \<Rightarrow> 'w parser" where
  "beginClose name s0 =
     (let s1 = updatePosition 1 s0
      in if name \<in> set foreignContextElements \<or> name \<in> set htmlIntegrationElements
         then s1\<lparr>foreignContext := butlast (foreignContext s1)\<rparr>
         else s1)"

text \<open>\<open>if (this.lowerCaseTagNames) name = name.toLowerCase()\<close>\<close>

definition foldTagName :: "'w parser \<Rightarrow> string \<Rightarrow> string" where
  "foldTagName s name = (if lowerCaseTagNames s then toLowerCase name else name)"

text \<open>
  \<open>onclosetag\<close> and \<open>onopentagname\<close> call each other, and the loop of
  \<open>onopentagname\<close> (here \<open>closeImplied\<close>) runs as long as the top of the stack
  belongs to the set of the opened name. The first argument bounds the number of nested
  calls and loop iterations; \<open>None\<close> means that the bound was too small.
\<close>

fun onclosetag :: "nat \<Rightarrow> string \<Rightarrow> 'w \<Rightarrow> 'w parser \<Rightarrow> 'w parser option"
and onopentagname :: "nat \<Rightarrow> string \<Rightarrow> 'w \<Rightarrow> 'w parser \<Rightarrow> 'w parser option"
and closeImplied :: "nat \<Rightarrow> string list \<Rightarrow> 'w \<Rightarrow> 'w parser \<Rightarrow> 'w parser option"
where
  "onclosetag 0 name0 w s0 = None"
| "onclosetag (Suc n) name0 w s0 =
     (let name = foldTagName s0 name0;
          s = beginClose name s0
      in if stack s \<noteq> [] \<and> \<not> isVoidElement s name then
           (case lastIndexOf (stack s) name of
              Some pos \<Rightarrow>
                if has_onclosetag (cbs s)
                then Some (popClose (length (stack s) - pos) w s)
                else Some (s\<lparr>stack := take pos (stack s)\<rparr>)
            | None \<Rightarrow>
                if name = ''p'' \<and> \<not> xmlMode (options s)
                then map_option (closeCurrentTag w) (onopentagname n name w s)
                else Some s)
         else if \<not> xmlMode (options s) \<and> (name = ''br'' \<or> name = ''p'')
         then map_option (closeCurrentTag w) (onopentagname n name w s)
         else Some s)"
| "onopentagname 0 name0 w s0 = None"
| "onopentagname (Suc n) name0 w s0 =
     (let name = foldTagName s0 name0;
          s1 = s0\<lparr>tagname := name\<rparr>
      in map_option (pushOpenTag name w)
           (if \<not> xmlMode (options s1)
            then (case openImpliesClose name of
                    Some els \<Rightarrow> closeImplied n els w s1
                  | None \<Rightarrow> Some s1)
            else Some s1))"
| "closeImplied 0 els w s = None"
| "closeImplied (Suc n) els w s =
     (if stack s \<noteq> [] \<and> last (stack s) \<in> set els
      then (case onclosetag n (last (stack s)) w s of
              None \<Rightarrow> None
            | Some s' \<Rightarrow> closeImplied n els w s')
      else Some s)"

definition selfClosing :: "'w parser \<Rightarrow> bool" where
  "selfClosing s \<longleftrightarrow>
     xmlMode (options s) \<or> recognizeSelfClosing (options s) \<or>
     (foreignContext s \<noteq> [] \<and> last (foreignContext s))"

definition onselfclosingtag :: "'w \<Rightarrow> 'w parser \<Rightarrow> 'w parser" where
  "onselfclosingtag w s =
     (if selfClosing s then closeCurrentTag w s else onopentagend w s)"

definition onattribname :: "string \<Rightarrow> 'w parser \<Rightarrow> 'w parser" where
  "onattribname name s =
     s\<lparr>attribname := (if lowerCaseAttributeNames s then toLowerCase name else name)\<rparr>"

definition onattribdata :: "string \<Rightarrow> 'w parser \<Rightarrow> 'w parser" where
  "onattribdata v s = s\<lparr>attribvalue := attribvalue s @ v\<rparr>"

text \<open>
  \<open>this.attribs[name] = value\<close>, the object being the literal \<open>{}\<close> of
  \<open>onopentagname\<close>: every name becomes an own property, except \<open>__proto__\<close>. That
  name is the accessor which the object inherits from \<open>Object.prototype\<close>; the
  assignment runs its setter, which ignores a string, and nothing is stored.
\<close>

definition setProperty :: "(string \<times> string) list \<Rightarrow> string \<Rightarrow> string \<Rightarrow> (string \<times> string) list" where
  "setProperty a name v = (if name = ''__proto__'' then a else a @ [(name, v)])"

text \<open>\<open>hasOwnProperty\<close> is membership among the keys of the list.\<close>

definition onattribend :: "quote \<Rightarrow> 'w \<Rightarrow> 'w parser \<Rightarrow> 'w parser" where
  "onattribend q w s =
     (let s1 = call (has_onattribute (cbs s))
                 (H_onattribute (attribname s) (attribvalue s) w q) s;
          s2 = (case attribs s1 of
                  Some a \<Rightarrow>
                    if attribname s1 \<notin> fst ` set a
                    then s1\<lparr>attribs := Some (setProperty a (attribname s1) (attribvalue s1))\<rparr>
                    else s1
                | None \<Rightarrow> s1)
      in s2\<lparr>attribname := [], attribvalue := []\<rparr>)"

text \<open>
  \<open>getInstructionName\<close>: the text before the first match of \<open>/\s|\//\<close>, the
  white space being the ASCII one in this model.
\<close>

definition isNameEnd :: "char \<Rightarrow> bool" where
  "isNameEnd c \<longleftrightarrow> c \<in> set [CHR '' '', CHR 0x09, CHR 0x0A, CHR 0x0B, CHR 0x0C, CHR 0x0D, CHR ''/'']"

definition getInstructionName :: "'w parser \<Rightarrow> string \<Rightarrow> string" where
  "getInstructionName s v =
     (let name = takeWhile (\<lambda>c. \<not> isNameEnd c) v
      in if lowerCaseTagNames s then toLowerCase name else name)"

definition ondeclaration :: "string \<Rightarrow> 'w \<Rightarrow> 'w parser \<Rightarrow> 'w parser" where
  "ondeclaration v w s =
     (if has_onprocessinginstruction (cbs s)
      then emit (H_onprocessinginstruction (CHR ''!'' # getInstructionName s v) (CHR ''!'' # v) w) s
      else s)"

definition onprocessinginstruction :: "string \<Rightarrow> 'w \<Rightarrow> 'w parser \<Rightarrow> 'w parser" where
  "onprocessinginstruction v w s =
     (if has_onprocessinginstruction (cbs s)
      then emit (H_onprocessinginstruction (CHR ''?'' # getInstructionName s v) (CHR ''?'' # v) w) s
      else s)"

definition oncomment :: "string \<Rightarrow> 'w \<Rightarrow> 'w parser \<Rightarrow> 'w parser" where
  "oncomment v w s =
     (let s1 = updatePosition 4 s;
          s2 = call (has_oncomment (cbs s1)) (H_oncomment v w) s1
      in call (has_oncommentend (cbs s2)) (H_oncommentend w) s2)"

definition oncdata :: "string \<Rightarrow> 'w \<Rightarrow> 'w parser \<Rightarrow> 'w parser" where
  "oncdata v w s =
     (let s1 = updatePosition 1 s
      in if xmlMode (options s1) \<or> recognizeCDATA (options s1)
         then (let s2 = call (has_oncdatastart (cbs s1)) H_oncdatastart s1;
                   s3 = call (has_ontext (cbs s2)) (H_ontext v w) s2
               in call (has_oncdataend (cbs s3)) (H_oncdataend w) s3)
         else oncomment (''[CDATA['' @ v @ '']]'') w s1)"

definition onerror :: "string \<Rightarrow> 'w \<Rightarrow> 'w parser \<Rightarrow> 'w parser" where
  "onerror err w s = call (has_onerror (cbs s)) (H_onerror err w) s"

text \<open>
  The loop of \<open>onend\<close>:
  \<open>for (let i = this.stack.length; i > 0; this.cbs.onclosetag(this.stack[--i], where));\<close>
\<close>

fun closeRemaining :: "nat \<Rightarrow> 'w \<Rightarrow> 'w parser \<Rightarrow> 'w parser" where
  "closeRemaining 0 w s = s"
| "closeRemaining (Suc i) w s = closeRemaining i w (emit (H_onclosetag (stack s ! i) w) s)"

definition onend :: "'w \<Rightarrow> 'w parser \<Rightarrow> 'w parser" where
  "onend w s =
     (let s1 = (if has_onclosetag (cbs s) then closeRemaining (length (stack s)) w s else s)
      in call (has_onend (cbs s1)) H_onend s1)"

definition onerbexpression :: "string \<Rightarrow> 'w \<Rightarrow> 'w parser \<Rightarrow> 'w parser" where
  "onerbexpression d w s = call (has_onerbexpression (cbs s)) (H_onerbexpression d w) s"

definition onerbscriptlet :: "string \<Rightarrow> 'w \<Rightarrow> 'w parser \<Rightarrow> 'w parser" where
  "onerbscriptlet d w s = call (has_onerbscriptlet (cbs s)) (H_onerbscriptlet d w) s"

text \<open>
  \<open>reset\<close>. \<open>this.tokenizer.reset()\<close> is code of Tokenizer.ts; \<open>tk\<close> is the
  tokenizer as that call leaves it.
\<close>

definition reset :: "tokenizer \<Rightarrow> 'w parser \<Rightarrow> 'w parser" where
  "reset tk s =
     (let s1 = call (has_onreset (cbs s)) H_onreset s;
          s2 = s1\<lparr>tokenizer := tk\<rparr>;
          s3 = s2\<lparr>tagname := [], attribname := [], attribs := None, stack := []\<rparr>
      in call (has_onparserinit (cbs s3)) H_onparserinit s3)"

section \<open>The tokenizer as the driver of the Parser\<close>

text \<open>
  The lexical events: one constructor per method that the tokenizer calls on the Parser,
  with the arguments of the call.
\<close>

datatype 'w token =
    T_text string 'w
  | T_opentagname string 'w
  | T_opentagend 'w
  | T_closetag string 'w
  | T_selfclosingtag 'w
  | T_attribname string
  | T_attribdata string
  | T_attribend quote 'w
  | T_declaration string 'w
  | T_processinginstruction string 'w
  | T_comment string 'w
  | T_cdata string 'w
  | T_error string 'w
  | T_end 'w
  | T_erbexpression string 'w
  | T_erbscriptlet string 'w

fun dispatch :: "nat \<Rightarrow> 'w token \<Rightarrow> 'w parser \<Rightarrow> 'w parser option" where
  "dispatch n (T_text d w) s = Some (ontext d w s)"
| "dispatch n (T_opentagname name w) s = onopentagname n name w s"
| "dispatch n (T_opentagend w) s = Some (onopentagend w s)"
| "dispatch n (T_closetag name w) s = onclosetag n name w s"
| "dispatch n (T_selfclosingtag w) s = Some (onselfclosingtag w s)"
| "dispatch n (T_attribname name) s = Some (onattribname name s)"
| "dispatch n (T_attribdata v) s = Some (onattribdata v s)"
| "dispatch n (T_attribend q w) s = Some (onattribend q w s)"
| "dispatch n (T_declaration v w) s = Some (ondeclaration v w s)"
| "dispatch n (T_processinginstruction v w) s = Some (onprocessinginstruction v w s)"
| "dispatch n (T_comment v w) s = Some (oncomment v w s)"
| "dispatch n (T_cdata v w) s = Some (oncdata v w s)"
| "dispatch n (T_error e w) s = Some (onerror e w s)"
| "dispatch n (T_end w) s = Some (onend w s)"
| "dispatch n (T_erbexpression d w) s = Some (onerbexpression d w s)"
| "dispatch n (T_erbscriptlet d w) s = Some (onerbscriptlet d w s)"

text \<open>
  A run: before each call the tokenizer has moved to the given position. The same bound
  is handed to every call.
\<close>

fun feed :: "nat \<Rightarrow> (tokenizer \<times> 'w token) list \<Rightarrow> 'w parser \<Rightarrow> 'w parser option" where
  "feed n [] s = Some s"
| "feed n ((tk, t) # ts) s =
     (case dispatch n t (s\<lparr>tokenizer := tk\<rparr>) of
        None \<Rightarrow> None
      | Some s' \<Rightarrow> feed n ts s')"

text \<open>
  The states a Parser can be in: it is constructed; then the tokenizer reads on and
  calls the methods of the Parser in any order and with any arguments, or \<open>reset\<close> is
  called. Every state that a real tokenizer produces is among them.
\<close>

inductive reachable :: "'w parser \<Rightarrow> bool" where
  reachable_new: "reachable (newParser h opts tk)"
| reachable_advance: "reachable s \<Longrightarrow> reachable (s\<lparr>tokenizer := tk\<rparr>)"
| reachable_token: "reachable s \<Longrightarrow> dispatch n t s = Some s' \<Longrightarrow> reachable s'"
| reachable_reset: "reachable s \<Longrightarrow> reachable (reset tk s)"

section \<open>Notions used in the statements\<close>

definition noVoid :: "'w parser \<Rightarrow> bool" where
  "noVoid s \<longleftrightarrow> (\<forall>x \<in> set (stack s). \<not> isVoidElement s x)"

definition keeps :: "'w parser \<Rightarrow> 'w parser \<Rightarrow> bool" where
  "keeps s s' \<longleftrightarrow>
     cbs s' = cbs s \<and> options s' = options s \<and>
     lowerCaseTagNames s' = lowerCaseTagNames s \<and>
     lowerCaseAttributeNames s' = lowerCaseAttributeNames s \<and>
     tokenizer s' = tokenizer s \<and> attribname s' = attribname s \<and>
     attribvalue s' = attribvalue s \<and> (noVoid s \<longrightarrow> noVoid s')"

text \<open>
  The calls the tokenizer makes for one attribute: its name, the pieces of its value,
  and its end with the quote kind.
\<close>

fun feedAttribute :: "'w \<Rightarrow> 'w parser \<Rightarrow> string \<times> string list \<times> quote \<Rightarrow> 'w parser" where
  "feedAttribute w s (name, pieces, q) =
     onattribend q w (foldl (\<lambda>s v. onattribdata v s) (onattribname name s) pieces)"

definition feedAttributes :: "'w \<Rightarrow> (string \<times> string list \<times> quote) list \<Rightarrow> 'w parser \<Rightarrow> 'w parser" where
  "feedAttributes w as s = foldl (feedAttribute w) s as"

text \<open>\<open>if (this.lowerCaseAttributeNames) name = name.toLowerCase()\<close>\<close>

definition foldAttribName :: "'w parser \<Rightarrow> string \<Rightarrow> string" where
  "foldAttribName s name = (if lowerCaseAttributeNames s then toLowerCase name else name)"

text \<open>The start offset that \<open>updatePosition k\<close> computes in the state \<open>s\<close>.\<close>

definition nextStart :: "int \<Rightarrow> 'w parser \<Rightarrow> int" where
  "nextStart k s =
     (case endIndex s of
        None \<Rightarrow> if sectionStart (tokenizer s) \<le> k then 0 else sectionStart (tokenizer s) - k
      | Some e \<Rightarrow> e + 1)"


text \<open>
  The position of a state, and the positions that a call made in the state \<open>s\<close> can
  compute by \<open>updatePosition 1\<close>: the first time from the end offset recorded before the
  call, and any further time from the end offset which the call has recorded itself, the
  cursor.
\<close>

definition position :: "'w parser \<Rightarrow> int \<times> int option" where
  "position s = (startIndex s, endIndex s)"

definition recomputed :: "'w parser \<Rightarrow> (int \<times> int option) list" where
  "recomputed s =
     [(nextStart 1 s, Some (absoluteIndex (tokenizer s))),
      (absoluteIndex (tokenizer s) + 1, Some (absoluteIndex (tokenizer s)))]"

text \<open>The state in which the recovery for a stray close tag leaves the Parser.\<close>

definition strayClose :: "string \<Rightarrow> 'w \<Rightarrow> 'w parser \<Rightarrow> 'w parser" where
  "strayClose N w s = closeCurrentTag w (pushOpenTag N w ((beginClose N s)\<lparr>tagname := N\<rparr>))"

text \<open>
  What the names of an auto-close set have in common: they are in lower case and are
  neither foreign nor integration-point names.
\<close>

definition closable :: "string list \<Rightarrow> bool" where
  "closable els \<longleftrightarrow>
     list_all (\<lambda>x. toLowerCase x = x \<and> x \<notin> set foreignContextElements \<and>
                    x \<notin> set htmlIntegrationElements) els"

text \<open>The fields that the implied closes leave alone.\<close>

definition sameTag :: "'w parser \<Rightarrow> 'w parser \<Rightarrow> bool" where
  "sameTag s s' \<longleftrightarrow>
     tagname s' = tagname s \<and> attribs s' = attribs s \<and> foreignContext s' = foreignContext s"

text \<open>The recovery for a stray close tag applies to the close tag \<open>name\<close>.\<close>

definition strays :: "'w parser \<Rightarrow> string \<Rightarrow> bool" where
  "strays s name \<longleftrightarrow>
     \<not> xmlMode (options s) \<and>
     (if stack s \<noteq> [] \<and> \<not> isVoidElement s (foldTagName s name)
      then lastIndexOf (stack s) (foldTagName s name) = None \<and> foldTagName s name = ''p''
      else foldTagName s name = ''br'' \<or> foldTagName s name = ''p'')"

section \<open>Example sessions\<close>

definition everyCallback :: handler where
  "everyCallback =
     \<lparr>has_onparserinit = True, has_onreset = True, has_onend = True, has_onerror = True,
      has_onclosetag = True, has_onopentagname = True, has_onattribute = True,
      has_onopentag = True, has_ontext = True, has_oncomment = True,
      has_oncdatastart = True, has_oncdataend = True, has_oncommentend = True,
      has_onprocessinginstruction = True, has_onerbexpression = True,
      has_onerbscriptlet = True\<rparr>"

definition htmlOptions :: parserOptions where
  "htmlOptions =
     \<lparr>xmlMode = False, lowerCaseTags = None, lowerCaseAttributeNamesOpt = None,
      recognizeCDATA = False, recognizeSelfClosing = False\<rparr>"

definition tokenizerAt :: "int \<Rightarrow> int \<Rightarrow> tokenizer" where
  "tokenizerAt b i = \<lparr>sectionStart = b, absoluteIndex = i\<rparr>"

text \<open>
  The state after \<open><div><p><span>\<close>, and the tokenizer at the end of a following
  \<open></P>\<close>.
\<close>

definition nestedState :: "unit parser" where
  "nestedState =
     \<lparr>startIndex = 8, endIndex = Some 13, tagname = [], attribname = [],
      attribvalue = [], attribs = None, stack = [''div'', ''p'', ''span''],
      foreignContext = [], cbs = everyCallback, options = htmlOptions,
      lowerCaseTagNames = True, lowerCaseAttributeNames = True, tokenizer = tokenizerAt 16 17,
      trace = [(H_onparserinit, 0, None),
               (H_onopentagname ''div'' (), 0, None), (H_onopentag ''div'' [] (), 0, Some 4),
               (H_onopentagname ''p'' (), 0, Some 4), (H_onopentag ''p'' [] (), 5, Some 7),
               (H_onopentagname ''span'' (), 5, Some 7),
               (H_onopentag ''span'' [] (), 8, Some 13)]\<rparr>"

text \<open>The state after \<open><b>\<close>, and the tokenizer at the end of the text \<open>hello\<close>.\<close>

definition textState :: "unit parser" where
  "textState =
     \<lparr>startIndex = 0, endIndex = Some 2, tagname = [], attribname = [],
      attribvalue = [], attribs = None, stack = [''b''], foreignContext = [],
      cbs = everyCallback, options = htmlOptions, lowerCaseTagNames = True,
      lowerCaseAttributeNames = True, tokenizer = tokenizerAt 3 8,
      trace = [(H_onparserinit, 0, None), (H_onopentagname ''b'' (), 0, None),
               (H_onopentag ''b'' [] (), 0, Some 2)]\<rparr>"

text \<open>The tokenizer calls for \<open><svg><path/></svg>\<close>.\<close>

definition svgPathSession :: "(tokenizer \<times> unit token) list" where
  "svgPathSession =
     [(tokenizerAt 1 4, T_opentagname ''svg'' ()),
      (tokenizerAt 1 4, T_opentagend ()),
      (tokenizerAt 6 10, T_opentagname ''path'' ()),
      (tokenizerAt 6 11, T_selfclosingtag ()),
      (tokenizerAt 14 17, T_closetag ''svg'' ())]"

text \<open>The state inside \<open><BR>\<close>, after the tag name.\<close>

definition brOpened :: "unit parser" where
  "brOpened =
     \<lparr>startIndex = 0, endIndex = None, tagname = ''br'', attribname = [],
      attribvalue = [], attribs = Some [], stack = [], foreignContext = [],
      cbs = everyCallback, options = htmlOptions, lowerCaseTagNames = True,
      lowerCaseAttributeNames = True, tokenizer = tokenizerAt 1 3,
      trace = [(H_onparserinit, 0, None), (H_onopentagname ''br'' (), 0, None)]\<rparr>"

text \<open>The state inside \<open><a ...>\<close>, after the tag name.\<close>

definition aOpened :: "unit parser" where
  "aOpened =
     \<lparr>startIndex = 0, endIndex = None, tagname = ''a'', attribname = [],
      attribvalue = [], attribs = Some [], stack = [''a''], foreignContext = [],
      cbs = everyCallback, options = htmlOptions, lowerCaseTagNames = True,
      lowerCaseAttributeNames = True, tokenizer = tokenizerAt 1 2,
      trace = [(H_onparserinit, 0, None), (H_onopentagname ''a'' (), 0, None)]\<rparr>"

text \<open>The tokenizer calls for \<open><svg><g><a href="x\<close>, cut off inside the attribute value.\<close>

definition svgSession :: "(tokenizer \<times> unit token) list" where
  "svgSession =
     [(tokenizerAt 1 4, T_opentagname ''svg'' ()),
      (tokenizerAt 1 4, T_opentagend ()),
      (tokenizerAt 6 7, T_opentagname ''g'' ()),
      (tokenizerAt 6 7, T_opentagend ()),
      (tokenizerAt 9 10, T_opentagname ''a'' ()),
      (tokenizerAt 11 15, T_attribname ''href''),
      (tokenizerAt 17 18, T_attribdata ''x'')]"

text \<open>The state after \<open><svg><path\<close>, and the tokenizer at the end of \<open>/>\<close>.\<close>

definition pathOpened :: "unit parser" where
  "pathOpened =
     \<lparr>startIndex = 0, endIndex = Some 4, tagname = ''path'', attribname = [],
      attribvalue = [], attribs = Some [], stack = [''svg'', ''path''],
      foreignContext = [True], cbs = everyCallback, options = htmlOptions,
      lowerCaseTagNames = True, lowerCaseAttributeNames = True, tokenizer = tokenizerAt 6 11,
      trace = [(H_onparserinit, 0, None), (H_onopentagname ''svg'' (), 0, None),
               (H_onopentag ''svg'' [] (), 0, Some 4),
               (H_onopentagname ''path'' (), 0, Some 4)]\<rparr>"

text \<open>The tokenizer calls for \<open><div><p><span>\<close> and the end of the input.\<close>

definition unclosedSession :: "(tokenizer \<times> unit token) list" where
  "unclosedSession =
     [(tokenizerAt 1 4, T_opentagname ''div'' ()),
      (tokenizerAt 1 4, T_opentagend ()),
      (tokenizerAt 6 7, T_opentagname ''p'' ()),
      (tokenizerAt 6 7, T_opentagend ()),
      (tokenizerAt 9 13, T_opentagname ''span'' ()),
      (tokenizerAt 9 13, T_opentagend ()),
      (tokenizerAt 14 14, T_end ())]"

text \<open>The tokenizer calls for \<open><ul><li>a<li>b</ul>\<close>.\<close>

definition listSession :: "(tokenizer \<times> unit token) list" where
  "listSession =
     [(tokenizerAt 1 3, T_opentagname ''ul'' ()),
      (tokenizerAt 1 3, T_opentagend ()),
      (tokenizerAt 5 7, T_opentagname ''li'' ()),
      (tokenizerAt 5 7, T_opentagend ()),
      (tokenizerAt 8 9, T_text ''a'' ()),
      (tokenizerAt 10 12, T_opentagname ''li'' ()),
      (tokenizerAt 10 12, T_opentagend ()),
      (tokenizerAt 13 14, T_text ''b'' ()),
      (tokenizerAt 16 18, T_closetag ''ul'' ())]"

text \<open>The state after \<open><ul><li>a\<close>, and the tokenizer inside the second \<open><li>\<close>.\<close>

definition itemOpen :: "unit parser" where
  "itemOpen =
     \<lparr>startIndex = 8, endIndex = Some 8, tagname = [], attribname = [],
      attribvalue = [], attribs = None, stack = [''ul'', ''li''], foreignContext = [],
      cbs = everyCallback, options = htmlOptions, lowerCaseTagNames = True,
      lowerCaseAttributeNames = True, tokenizer = tokenizerAt 10 12,
      trace = [(H_onparserinit, 0, None),
               (H_onopentagname ''ul'' (), 0, None), (H_onopentag ''ul'' [] (), 0, Some 3),
               (H_onopentagname ''li'' (), 0, Some 3), (H_onopentag ''li'' [] (), 4, Some 7),
               (H_ontext ''a'' (), 8, Some 8)]\<rparr>"

text \<open>The tokenizer calls for \<open><a __proto__="x" __proto__="y">\<close>.\<close>

definition protoSession :: "(tokenizer \<times> unit token) list" where
  "protoSession =
     [(tokenizerAt 1 2, T_opentagname ''a'' ()),
      (tokenizerAt 3 12, T_attribname ''__proto__''),
      (tokenizerAt 14 15, T_attribdata ''x''),
      (tokenizerAt 14 15, T_attribend (Quote [CHR 0x22]) ()),
      (tokenizerAt 17 26, T_attribname ''__proto__''),
      (tokenizerAt 28 29, T_attribdata ''y''),
      (tokenizerAt 28 29, T_attribend (Quote [CHR 0x22]) ()),
      (tokenizerAt 28 30, T_opentagend ())]"

section \<open>What each operation changes\<close>

lemma emit_fields [simp]:
  "startIndex (emit e s) = startIndex s" "endIndex (emit e s) = endIndex s"
  "tagname (emit e s) = tagname s" "attribname (emit e s) = attribname s"
  "attribvalue (emit e s) = attribvalue s" "attribs (emit e s) = attribs s"
  "stack (emit e s) = stack s" "foreignContext (emit e s) = foreignContext s"
  "cbs (emit e s) = cbs s" "options (emit e s) = options s"
  "lowerCaseTagNames (emit e s) = lowerCaseTagNames s"
  "lowerCaseAttributeNames (emit e s) = lowerCaseAttributeNames s"
  "tokenizer (emit e s) = tokenizer s"
  "trace (emit e s) = trace s @ [(e, startIndex s, endIndex s)]"
  by (simp_all add: emit_def)

lemma call_fields [simp]:
  "startIndex (call b e s) = startIndex s" "endIndex (call b e s) = endIndex s"
  "tagname (call b e s) = tagname s" "attribname (call b e s) = attribname s"
  "attribvalue (call b e s) = attribvalue s" "attribs (call b e s) = attribs s"
  "stack (call b e s) = stack s" "foreignContext (call b e s) = foreignContext s"
  "cbs (call b e s) = cbs s" "options (call b e s) = options s"
  "lowerCaseTagNames (call b e s) = lowerCaseTagNames s"
  "lowerCaseAttributeNames (call b e s) = lowerCaseAttributeNames s"
  "tokenizer (call b e s) = tokenizer s"
  "trace (call b e s) = trace s @ (if b then [(e, startIndex s, endIndex s)] else [])"
  by (simp_all add: call_def)

lemma updatePosition_fields [simp]:
  "tagname (updatePosition k s) = tagname s" "attribname (updatePosition k s) = attribname s"
  "attribvalue (updatePosition k s) = attribvalue s" "attribs (updatePosition k s) = attribs s"
  "stack (updatePosition k s) = stack s" "foreignContext (updatePosition k s) = foreignContext s"
  "cbs (updatePosition k s) = cbs s" "options (updatePosition k s) = options s"
  "lowerCaseTagNames (updatePosition k s) = lowerCaseTagNames s"
  "lowerCaseAttributeNames (updatePosition k s) = lowerCaseAttributeNames s"
  "tokenizer (updatePosition k s) = tokenizer s"
  "trace (updatePosition k s) = trace s"
  "endIndex (updatePosition k s) = Some (absoluteIndex (tokenizer s))"
  by (simp_all add: updatePosition_def Let_def split: option.split)

lemma isVoidElement_cong:
  "options s' = options s \<Longrightarrow> isVoidElement s' name = isVoidElement s name"
  by (simp add: isVoidElement_def)

lemma lastIndexOf_None: "lastIndexOf xs x = None \<longleftrightarrow> x \<notin> set xs"
  by (induction xs) (auto split: option.splits)

lemma lastIndexOf_append: "x \<notin> set post \<Longrightarrow> lastIndexOf (pre @ x # post) x = Some (length pre)"
  by (induction pre) (auto simp: lastIndexOf_None split: option.splits)

lemma popClose_fields [simp]:
  "startIndex (popClose k w s) = startIndex s" "endIndex (popClose k w s) = endIndex s"
  "tagname (popClose k w s) = tagname s" "attribname (popClose k w s) = attribname s"
  "attribvalue (popClose k w s) = attribvalue s" "attribs (popClose k w s) = attribs s"
  "foreignContext (popClose k w s) = foreignContext s"
  "cbs (popClose k w s) = cbs s" "options (popClose k w s) = options s"
  "lowerCaseTagNames (popClose k w s) = lowerCaseTagNames s"
  "lowerCaseAttributeNames (popClose k w s) = lowerCaseAttributeNames s"
  "tokenizer (popClose k w s) = tokenizer s"
  by (induction k arbitrary: s; simp)+

lemma popClose_stack: "stack (popClose k w s) = take (length (stack s) - k) (stack s)"
proof (induction k arbitrary: s)
  case 0
  then show ?case by simp
next
  case (Suc k)
  show ?case by (simp add: Suc butlast_conv_take)
qed

lemma popClose_trace:
  "k \<le> length (stack s) \<Longrightarrow>
   trace (popClose k w s) =
     trace s @ map (\<lambda>x. (H_onclosetag x w, startIndex s, endIndex s))
                 (rev (drop (length (stack s) - k) (stack s)))"
proof (induction k arbitrary: s)
  case 0
  then show ?case by simp
next
  case (Suc k)
  from Suc.prems obtain xs x where st: "stack s = xs @ [x]"
    by (cases "stack s" rule: rev_cases) auto
  with Suc.prems have k: "k \<le> length xs" by simp
  have "drop (length xs - k) (xs @ [x]) = drop (length xs - k) xs @ [x]"
    using k by simp
  then show ?case using k by (simp add: Suc.IH st)
qed

lemma beginClose_fields [simp]:
  "tagname (beginClose name s) = tagname s" "attribname (beginClose name s) = attribname s"
  "attribvalue (beginClose name s) = attribvalue s" "attribs (beginClose name s) = attribs s"
  "stack (beginClose name s) = stack s"
  "cbs (beginClose name s) = cbs s" "options (beginClose name s) = options s"
  "lowerCaseTagNames (beginClose name s) = lowerCaseTagNames s"
  "lowerCaseAttributeNames (beginClose name s) = lowerCaseAttributeNames s"
  "tokenizer (beginClose name s) = tokenizer s"
  "trace (beginClose name s) = trace s"
  "startIndex (beginClose name s) = startIndex (updatePosition 1 s)"
  "endIndex (beginClose name s) = Some (absoluteIndex (tokenizer s))"
  by (simp_all add: beginClose_def Let_def)

lemma isVoidElement_beginClose [simp]:
  "isVoidElement (beginClose name s) x = isVoidElement s x"
  by (simp add: isVoidElement_def)

lemma closeRemaining_fields [simp]:
  "startIndex (closeRemaining k w s) = startIndex s" "endIndex (closeRemaining k w s) = endIndex s"
  "tagname (closeRemaining k w s) = tagname s" "attribname (closeRemaining k w s) = attribname s"
  "attribvalue (closeRemaining k w s) = attribvalue s" "attribs (closeRemaining k w s) = attribs s"
  "stack (closeRemaining k w s) = stack s"
  "foreignContext (closeRemaining k w s) = foreignContext s"
  "cbs (closeRemaining k w s) = cbs s" "options (closeRemaining k w s) = options s"
  "lowerCaseTagNames (closeRemaining k w s) = lowerCaseTagNames s"
  "lowerCaseAttributeNames (closeRemaining k w s) = lowerCaseAttributeNames s"
  "tokenizer (closeRemaining k w s) = tokenizer s"
  by (induction k arbitrary: s; simp)+


lemma onend_fields [simp]:
  "startIndex (onend w s) = startIndex s" "endIndex (onend w s) = endIndex s"
  "tagname (onend w s) = tagname s" "attribname (onend w s) = attribname s"
  "attribvalue (onend w s) = attribvalue s" "attribs (onend w s) = attribs s"
  "stack (onend w s) = stack s"
  "foreignContext (onend w s) = foreignContext s"
  "cbs (onend w s) = cbs s" "options (onend w s) = options s"
  "lowerCaseTagNames (onend w s) = lowerCaseTagNames s"
  "lowerCaseAttributeNames (onend w s) = lowerCaseAttributeNames s"
  "tokenizer (onend w s) = tokenizer s"
  by (simp_all add: onend_def Let_def)


lemma ontext_fields [simp]:
  "tagname (ontext d w s) = tagname s" "attribname (ontext d w s) = attribname s"
  "attribvalue (ontext d w s) = attribvalue s" "attribs (ontext d w s) = attribs s"
  "stack (ontext d w s) = stack s" "foreignContext (ontext d w s) = foreignContext s"
  "cbs (ontext d w s) = cbs s" "options (ontext d w s) = options s"
  "lowerCaseTagNames (ontext d w s) = lowerCaseTagNames s"
  "lowerCaseAttributeNames (ontext d w s) = lowerCaseAttributeNames s"
  "tokenizer (ontext d w s) = tokenizer s"
  by (simp_all add: ontext_def Let_def)

lemma onopentagend_fields [simp]:
  "attribname (onopentagend w s) = attribname s"
  "attribvalue (onopentagend w s) = attribvalue s"
  "stack (onopentagend w s) = stack s" "foreignContext (onopentagend w s) = foreignContext s"
  "cbs (onopentagend w s) = cbs s" "options (onopentagend w s) = options s"
  "lowerCaseTagNames (onopentagend w s) = lowerCaseTagNames s"
  "lowerCaseAttributeNames (onopentagend w s) = lowerCaseAttributeNames s"
  "tokenizer (onopentagend w s) = tokenizer s"
  "tagname (onopentagend w s) = []" "attribs (onopentagend w s) = None"
  "endIndex (onopentagend w s) = Some (absoluteIndex (tokenizer s))"
  "startIndex (onopentagend w s) = startIndex (updatePosition 1 s)"
  by (simp_all add: onopentagend_def Let_def split: option.split)

lemma onopentagend_trace:
  "trace (onopentagend w s) =
     trace s @
     (case attribs s of
        Some a \<Rightarrow>
          if has_onopentag (cbs s)
          then [(H_onopentag (tagname s) a w, startIndex (updatePosition 1 s),
                 Some (absoluteIndex (tokenizer s)))]
          else []
      | None \<Rightarrow> []) @
     (if has_onclosetag (cbs s) \<and> isVoidElement s (tagname s)
      then [(H_onclosetag (tagname s) w, startIndex (updatePosition 1 s),
             Some (absoluteIndex (tokenizer s)))]
      else [])"
  by (simp add: onopentagend_def Let_def isVoidElement_def split: option.split)

lemma closeCurrentTag_fields [simp]:
  "attribname (closeCurrentTag w s) = attribname s"
  "attribvalue (closeCurrentTag w s) = attribvalue s"
  "foreignContext (closeCurrentTag w s) = foreignContext s"
  "cbs (closeCurrentTag w s) = cbs s" "options (closeCurrentTag w s) = options s"
  "lowerCaseTagNames (closeCurrentTag w s) = lowerCaseTagNames s"
  "lowerCaseAttributeNames (closeCurrentTag w s) = lowerCaseAttributeNames s"
  "tokenizer (closeCurrentTag w s) = tokenizer s"
  "tagname (closeCurrentTag w s) = []" "attribs (closeCurrentTag w s) = None"
  "endIndex (closeCurrentTag w s) = Some (absoluteIndex (tokenizer s))"
  "startIndex (closeCurrentTag w s) = startIndex (updatePosition 1 s)"
  by (simp_all add: closeCurrentTag_def Let_def)

lemma closeCurrentTag_stack:
  "stack (closeCurrentTag w s) =
     (if stack s \<noteq> [] \<and> last (stack s) = tagname s then butlast (stack s) else stack s)"
  by (simp add: closeCurrentTag_def Let_def)

lemma closeCurrentTag_trace:
  "trace (closeCurrentTag w s) =
     trace (onopentagend w s) @
     (if stack s \<noteq> [] \<and> last (stack s) = tagname s \<and> has_onclosetag (cbs s)
      then [(H_onclosetag (tagname s) w, startIndex (updatePosition 1 s),
             Some (absoluteIndex (tokenizer s)))]
      else [])"
  by (simp add: closeCurrentTag_def Let_def)

lemma pushOpenTag_fields [simp]:
  "startIndex (pushOpenTag name w s) = startIndex s" "endIndex (pushOpenTag name w s) = endIndex s"
  "tagname (pushOpenTag name w s) = tagname s" "attribname (pushOpenTag name w s) = attribname s"
  "attribvalue (pushOpenTag name w s) = attribvalue s"
  "cbs (pushOpenTag name w s) = cbs s" "options (pushOpenTag name w s) = options s"
  "lowerCaseTagNames (pushOpenTag name w s) = lowerCaseTagNames s"
  "lowerCaseAttributeNames (pushOpenTag name w s) = lowerCaseAttributeNames s"
  "tokenizer (pushOpenTag name w s) = tokenizer s"
  by (simp_all add: pushOpenTag_def Let_def)

lemma pushOpenTag_stack:
  "stack (pushOpenTag name w s) = (if isVoidElement s name then stack s else stack s @ [name])"
  by (simp add: pushOpenTag_def Let_def)

lemma pushOpenTag_attribs:
  "attribs (pushOpenTag name w s) = (if has_onopentag (cbs s) then Some [] else attribs s)"
  by (simp add: pushOpenTag_def Let_def)

lemma pushOpenTag_trace:
  "trace (pushOpenTag name w s) =
     trace s @ (if has_onopentagname (cbs s)
                then [(H_onopentagname name w, startIndex s, endIndex s)] else [])"
  by (simp add: pushOpenTag_def Let_def)

lemma pushOpenTag_foreignContext:
  "foreignContext (pushOpenTag name w s) =
     (if isVoidElement s name then foreignContext s
      else if name \<in> set foreignContextElements then foreignContext s @ [True]
      else if name \<in> set htmlIntegrationElements then foreignContext s @ [False]
      else foreignContext s)"
  by (simp add: pushOpenTag_def Let_def)

lemma onselfclosingtag_fields [simp]:
  "attribname (onselfclosingtag w s) = attribname s"
  "attribvalue (onselfclosingtag w s) = attribvalue s"
  "foreignContext (onselfclosingtag w s) = foreignContext s"
  "cbs (onselfclosingtag w s) = cbs s" "options (onselfclosingtag w s) = options s"
  "lowerCaseTagNames (onselfclosingtag w s) = lowerCaseTagNames s"
  "lowerCaseAttributeNames (onselfclosingtag w s) = lowerCaseAttributeNames s"
  "tokenizer (onselfclosingtag w s) = tokenizer s"
  "tagname (onselfclosingtag w s) = []" "attribs (onselfclosingtag w s) = None"
  by (simp_all add: onselfclosingtag_def)

lemma onattribname_fields [simp]:
  "startIndex (onattribname n s) = startIndex s" "endIndex (onattribname n s) = endIndex s"
  "tagname (onattribname n s) = tagname s"
  "attribvalue (onattribname n s) = attribvalue s" "attribs (onattribname n s) = attribs s"
  "stack (onattribname n s) = stack s" "foreignContext (onattribname n s) = foreignContext s"
  "cbs (onattribname n s) = cbs s" "options (onattribname n s) = options s"
  "lowerCaseTagNames (onattribname n s) = lowerCaseTagNames s"
  "lowerCaseAttributeNames (onattribname n s) = lowerCaseAttributeNames s"
  "tokenizer (onattribname n s) = tokenizer s" "trace (onattribname n s) = trace s"
  "attribname (onattribname n s) = (if lowerCaseAttributeNames s then toLowerCase n else n)"
  by (simp_all add: onattribname_def)

lemma onattribdata_fields [simp]:
  "startIndex (onattribdata v s) = startIndex s" "endIndex (onattribdata v s) = endIndex s"
  "tagname (onattribdata v s) = tagname s" "attribname (onattribdata v s) = attribname s"
  "attribs (onattribdata v s) = attribs s"
  "stack (onattribdata v s) = stack s" "foreignContext (onattribdata v s) = foreignContext s"
  "cbs (onattribdata v s) = cbs s" "options (onattribdata v s) = options s"
  "lowerCaseTagNames (onattribdata v s) = lowerCaseTagNames s"
  "lowerCaseAttributeNames (onattribdata v s) = lowerCaseAttributeNames s"
  "tokenizer (onattribdata v s) = tokenizer s" "trace (onattribdata v s) = trace s"
  "attribvalue (onattribdata v s) = attribvalue s @ v"
  by (simp_all add: onattribdata_def)

lemma onattribend_fields [simp]:
  "startIndex (onattribend q w s) = startIndex s" "endIndex (onattribend q w s) = endIndex s"
  "tagname (onattribend q w s) = tagname s"
  "stack (onattribend q w s) = stack s" "foreignContext (onattribend q w s) = foreignContext s"
  "cbs (onattribend q w s) = cbs s" "options (onattribend q w s) = options s"
  "lowerCaseTagNames (onattribend q w s) = lowerCaseTagNames s"
  "lowerCaseAttributeNames (onattribend q w s) = lowerCaseAttributeNames s"
  "tokenizer (onattribend q w s) = tokenizer s"
  "attribname (onattribend q w s) = []" "attribvalue (onattribend q w s) = []"
  by (simp_all add: onattribend_def Let_def split: option.split)

lemma onattribend_trace:
  "trace (onattribend q w s) =
     trace s @ (if has_onattribute (cbs s)
                then [(H_onattribute (attribname s) (attribvalue s) w q, startIndex s, endIndex s)]
                else [])"
  by (simp add: onattribend_def Let_def split: option.split)

lemma onattribend_attribs:
  "attribs (onattribend q w s) =
     (case attribs s of
        None \<Rightarrow> None
      | Some a \<Rightarrow> if attribname s \<in> fst ` set a then Some a
                  else Some (setProperty a (attribname s) (attribvalue s)))"
  by (simp add: onattribend_def Let_def split: option.split)

lemma ondeclaration_fields [simp]:
  "startIndex (ondeclaration v w s) = startIndex s" "endIndex (ondeclaration v w s) = endIndex s"
  "tagname (ondeclaration v w s) = tagname s" "attribname (ondeclaration v w s) = attribname s"
  "attribvalue (ondeclaration v w s) = attribvalue s" "attribs (ondeclaration v w s) = attribs s"
  "stack (ondeclaration v w s) = stack s" "foreignContext (ondeclaration v w s) = foreignContext s"
  "cbs (ondeclaration v w s) = cbs s" "options (ondeclaration v w s) = options s"
  "lowerCaseTagNames (ondeclaration v w s) = lowerCaseTagNames s"
  "lowerCaseAttributeNames (ondeclaration v w s) = lowerCaseAttributeNames s"
  "tokenizer (ondeclaration v w s) = tokenizer s"
  by (simp_all add: ondeclaration_def)

lemma onprocessinginstruction_fields [simp]:
  "startIndex (onprocessinginstruction v w s) = startIndex s"
  "endIndex (onprocessinginstruction v w s) = endIndex s"
  "tagname (onprocessinginstruction v w s) = tagname s"
  "attribname (onprocessinginstruction v w s) = attribname s"
  "attribvalue (onprocessinginstruction v w s) = attribvalue s"
  "attribs (onprocessinginstruction v w s) = attribs s"
  "stack (onprocessinginstruction v w s) = stack s"
  "foreignContext (onprocessinginstruction v w s) = foreignContext s"
  "cbs (onprocessinginstruction v w s) = cbs s" "options (onprocessinginstruction v w s) = options s"
  "lowerCaseTagNames (onprocessinginstruction v w s) = lowerCaseTagNames s"
  "lowerCaseAttributeNames (onprocessinginstruction v w s) = lowerCaseAttributeNames s"
  "tokenizer (onprocessinginstruction v w s) = tokenizer s"
  by (simp_all add: onprocessinginstruction_def)

lemma oncomment_fields [simp]:
  "tagname (oncomment v w s) = tagname s" "attribname (oncomment v w s) = attribname s"
  "attribvalue (oncomment v w s) = attribvalue s" "attribs (oncomment v w s) = attribs s"
  "stack (oncomment v w s) = stack s" "foreignContext (oncomment v w s) = foreignContext s"
  "cbs (oncomment v w s) = cbs s" "options (oncomment v w s) = options s"
  "lowerCaseTagNames (oncomment v w s) = lowerCaseTagNames s"
  "lowerCaseAttributeNames (oncomment v w s) = lowerCaseAttributeNames s"
  "tokenizer (oncomment v w s) = tokenizer s"
  by (simp_all add: oncomment_def Let_def)

lemma oncdata_fields [simp]:
  "tagname (oncdata v w s) = tagname s" "attribname (oncdata v w s) = attribname s"
  "attribvalue (oncdata v w s) = attribvalue s" "attribs (oncdata v w s) = attribs s"
  "stack (oncdata v w s) = stack s" "foreignContext (oncdata v w s) = foreignContext s"
  "cbs (oncdata v w s) = cbs s" "options (oncdata v w s) = options s"
  "lowerCaseTagNames (oncdata v w s) = lowerCaseTagNames s"
  "lowerCaseAttributeNames (oncdata v w s) = lowerCaseAttributeNames s"
  "tokenizer (oncdata v w s) = tokenizer s"
  by (simp_all add: oncdata_def Let_def)

lemma onerror_fields [simp]:
  "startIndex (onerror v w s) = startIndex s" "endIndex (onerror v w s) = endIndex s"
  "tagname (onerror v w s) = tagname s" "attribname (onerror v w s) = attribname s"
  "attribvalue (onerror v w s) = attribvalue s" "attribs (onerror v w s) = attribs s"
  "stack (onerror v w s) = stack s" "foreignContext (onerror v w s) = foreignContext s"
  "cbs (onerror v w s) = cbs s" "options (onerror v w s) = options s"
  "lowerCaseTagNames (onerror v w s) = lowerCaseTagNames s"
  "lowerCaseAttributeNames (onerror v w s) = lowerCaseAttributeNames s"
  "tokenizer (onerror v w s) = tokenizer s"
  by (simp_all add: onerror_def)

lemma onerbexpression_fields [simp]:
  "startIndex (onerbexpression v w s) = startIndex s" "endIndex (onerbexpression v w s) = endIndex s"
  "tagname (onerbexpression v w s) = tagname s" "attribname (onerbexpression v w s) = attribname s"
  "attribvalue (onerbexpression v w s) = attribvalue s" "attribs (onerbexpression v w s) = attribs s"
  "stack (onerbexpression v w s) = stack s" "foreignContext (onerbexpression v w s) = foreignContext s"
  "cbs (onerbexpression v w s) = cbs s" "options (onerbexpression v w s) = options s"
  "lowerCaseTagNames (onerbexpression v w s) = lowerCaseTagNames s"
  "lowerCaseAttributeNames (onerbexpression v w s) = lowerCaseAttributeNames s"
  "tokenizer (onerbexpression v w s) = tokenizer s"
  by (simp_all add: onerbexpression_def)

lemma onerbscriptlet_fields [simp]:
  "startIndex (onerbscriptlet v w s) = startIndex s" "endIndex (onerbscriptlet v w s) = endIndex s"
  "tagname (onerbscriptlet v w s) = tagname s" "attribname (onerbscriptlet v w s) = attribname s"
  "attribvalue (onerbscriptlet v w s) = attribvalue s" "attribs (onerbscriptlet v w s) = attribs s"
  "stack (onerbscriptlet v w s) = stack s" "foreignContext (onerbscriptlet v w s) = foreignContext s"
  "cbs (onerbscriptlet v w s) = cbs s" "options (onerbscriptlet v w s) = options s"
  "lowerCaseTagNames (onerbscriptlet v w s) = lowerCaseTagNames s"
  "lowerCaseAttributeNames (onerbscriptlet v w s) = lowerCaseAttributeNames s"
  "tokenizer (onerbscriptlet v w s) = tokenizer s"
  by (simp_all add: onerbscriptlet_def)

lemma reset_fields [simp]:
  "startIndex (reset tk s) = startIndex s" "endIndex (reset tk s) = endIndex s"
  "attribvalue (reset tk s) = attribvalue s"
  "foreignContext (reset tk s) = foreignContext s"
  "cbs (reset tk s) = cbs s" "options (reset tk s) = options s"
  "lowerCaseTagNames (reset tk s) = lowerCaseTagNames s"
  "lowerCaseAttributeNames (reset tk s) = lowerCaseAttributeNames s"
  "tokenizer (reset tk s) = tk"
  "tagname (reset tk s) = []" "attribname (reset tk s) = []" "attribs (reset tk s) = None"
  "stack (reset tk s) = []"
  by (simp_all add: reset_def Let_def)

lemma keeps_refl: "keeps s s"
  by (simp add: keeps_def)

lemma keeps_trans: "keeps s t \<Longrightarrow> keeps t u \<Longrightarrow> keeps s u"
  by (simp add: keeps_def)

lemma noVoid_subset:
  "options s' = options s \<Longrightarrow> set (stack s') \<subseteq> set (stack s) \<Longrightarrow> noVoid s \<Longrightarrow> noVoid s'"
  by (auto simp: noVoid_def isVoidElement_def)

lemma keeps_beginClose: "keeps s (beginClose name s)"
  by (simp add: keeps_def noVoid_def)

lemma keeps_popClose: "keeps s (popClose k w s)"
  by (simp add: keeps_def popClose_stack noVoid_subset set_take_subset del: popClose.simps)

lemma keeps_take: "keeps s (s\<lparr>stack := take k (stack s)\<rparr>)"
  by (simp add: keeps_def noVoid_subset set_take_subset)

lemma keeps_closeCurrentTag: "keeps s (closeCurrentTag w s)"
proof -
  have "set (stack (closeCurrentTag w s)) \<subseteq> set (stack s)"
    by (auto simp: closeCurrentTag_stack dest: in_set_butlastD)
  then show ?thesis by (simp add: keeps_def noVoid_subset)
qed

lemma keeps_onopentagend: "keeps s (onopentagend w s)"
  by (simp add: keeps_def noVoid_subset)

lemma keeps_tagname: "keeps s (s\<lparr>tagname := n\<rparr>)"
  by (simp add: keeps_def noVoid_def isVoidElement_def)

lemma keeps_pushOpenTag: "keeps s (pushOpenTag name w s)"
  by (auto simp: keeps_def noVoid_def pushOpenTag_stack isVoidElement_def)

lemma nested_keeps:
  "(\<forall>name w s s'. onclosetag n name w s = Some (s' :: 'w parser) \<longrightarrow> keeps s s') \<and>
   (\<forall>name w s s'. onopentagname n name w s = Some (s' :: 'w parser) \<longrightarrow> keeps s s') \<and>
   (\<forall>els w s s'. closeImplied n els w s = Some (s' :: 'w parser) \<longrightarrow> keeps s s')"
proof (induction n)
  case 0
  show ?case by simp
next
  case (Suc n)
  have close: "keeps s s'" if "onclosetag (Suc n) name w s = Some s'"
    for name w and s s' :: "'w parser"
  proof -
    let ?N = "foldTagName s name"
    let ?b = "beginClose ?N s"
    have b: "keeps s ?b" by (rule keeps_beginClose)
    have stray: "keeps s s'" if "map_option (closeCurrentTag w) (onopentagname n ?N w ?b) = Some s'"
    proof -
      from that obtain t where t: "onopentagname n ?N w ?b = Some t" and s': "s' = closeCurrentTag w t"
        by auto
      from t Suc.IH have "keeps ?b t" by blast
      with b s' show ?thesis by (blast intro: keeps_trans keeps_closeCurrentTag)
    qed
    from that have "s' = ?b \<or> (\<exists>k. s' = popClose k w ?b) \<or> (\<exists>k. s' = ?b\<lparr>stack := take k (stack ?b)\<rparr>) \<or>
        map_option (closeCurrentTag w) (onopentagname n ?N w ?b) = Some s'"
      by (simp add: Let_def del: popClose.simps split: if_splits option.splits) blast+
    then show ?thesis
      using b stray by (blast intro: keeps_trans keeps_popClose keeps_take)
  qed
  have "open": "keeps s s'" if "onopentagname (Suc n) name w s = Some s'"
    for name w and s s' :: "'w parser"
  proof -
    let ?N = "foldTagName s name"
    let ?t = "s\<lparr>tagname := ?N\<rparr>"
    from that obtain u where s': "s' = pushOpenTag ?N w u"
      and u: "u = ?t \<or> (\<exists>els. closeImplied n els w ?t = Some u)"
      by (auto simp: Let_def split: if_splits option.splits)
    from u Suc.IH have "keeps ?t u" by (blast intro: keeps_refl)
    then show ?thesis
      unfolding s' by (blast intro: keeps_trans keeps_tagname keeps_pushOpenTag)
  qed
  have loop: "keeps s s'" if "closeImplied (Suc n) els w s = Some s'"
    for els w and s s' :: "'w parser"
  proof (cases "stack s \<noteq> [] \<and> last (stack s) \<in> set els")
    case True
    with that obtain t where "onclosetag n (last (stack s)) w s = Some t"
      and "closeImplied n els w t = Some s'"
      by (auto split: option.splits)
    with Suc.IH show ?thesis by (blast intro: keeps_trans)
  next
    case False
    with that show ?thesis by (auto intro: keeps_refl)
  qed
  from close "open" loop show ?case by blast
qed

lemma onclosetag_keeps: "onclosetag n name w s = Some s' \<Longrightarrow> keeps s s'"
  by (rule nested_keeps [THEN conjunct1, rule_format])

lemma onopentagname_keeps: "onopentagname n name w s = Some s' \<Longrightarrow> keeps s s'"
  by (rule nested_keeps [THEN conjunct2, THEN conjunct1, rule_format])

lemma closeImplied_keeps: "closeImplied n els w s = Some s' \<Longrightarrow> keeps s s'"
  by (rule nested_keeps [THEN conjunct2, THEN conjunct2, rule_format])

lemma keeps_same_stack:
  "cbs s' = cbs s \<Longrightarrow> options s' = options s \<Longrightarrow>
   lowerCaseTagNames s' = lowerCaseTagNames s \<Longrightarrow>
   lowerCaseAttributeNames s' = lowerCaseAttributeNames s \<Longrightarrow>
   tokenizer s' = tokenizer s \<Longrightarrow> stack s' = stack s \<Longrightarrow>
   options s' = options s \<and> (noVoid s \<longrightarrow> noVoid s')"
  by (simp add: noVoid_def isVoidElement_def)

lemma onselfclosingtag_stack_subset: "set (stack (onselfclosingtag w s)) \<subseteq> set (stack s)"
  by (auto simp: onselfclosingtag_def closeCurrentTag_stack dest: in_set_butlastD)

lemma dispatch_noVoid:
  assumes d: "dispatch n t s = Some s'"
  shows "options s' = options s \<and> (noVoid s \<longrightarrow> noVoid s')"
proof (cases t)
  case (T_opentagname name w)
  with d have "keeps s s'" by (simp add: onopentagname_keeps)
  then show ?thesis by (simp add: keeps_def)
next
  case (T_closetag name w)
  with d have "keeps s s'" by (simp add: onclosetag_keeps)
  then show ?thesis by (simp add: keeps_def)
next
  case (T_selfclosingtag w)
  with d have s': "s' = onselfclosingtag w s" by simp
  show ?thesis
    unfolding s' using noVoid_subset [of "onselfclosingtag w s" s] onselfclosingtag_stack_subset [of w s]
    by simp
qed (use d in \<open>auto simp: noVoid_def isVoidElement_def\<close>)

lemma noVoid_tokenizer [simp]: "noVoid (s\<lparr>tokenizer := tk\<rparr>) = noVoid s"
  by (simp add: noVoid_def isVoidElement_def)

lemma noVoid_newParser: "noVoid (newParser h opts tk)"
  by (simp add: noVoid_def newParser_def call_def emit_def)

lemma noVoid_reset: "noVoid (reset tk s)"
  by (simp add: noVoid_def)

lemma reachable_noVoid: "reachable s \<Longrightarrow> noVoid s"
proof (induction rule: reachable.induct)
  case (reachable_new h opts tk)
  show ?case by (rule noVoid_newParser)
next
  case (reachable_advance s tk)
  then show ?case by simp
next
  case (reachable_token s n t s')
  then show ?case using dispatch_noVoid [of n t s s'] by simp
next
  case (reachable_reset s tk)
  show ?case by (rule noVoid_reset)
qed

lemma reachable_feed: "reachable s \<Longrightarrow> feed n ts s = Some s' \<Longrightarrow> reachable s'"
proof (induction ts arbitrary: s)
  case Nil
  then show ?case by simp
next
  case (Cons a ts)
  obtain tk t where a: "a = (tk, t)" by (cases a)
  from Cons.prems(2) obtain u where u: "dispatch n t (s\<lparr>tokenizer := tk\<rparr>) = Some u"
    and r: "feed n ts u = Some s'"
    by (auto simp: a split: option.splits)
  from Cons.prems(1) have "reachable (s\<lparr>tokenizer := tk\<rparr>)" by (rule reachable_advance)
  then have "reachable u" using u by (rule reachable_token)
  then show ?case using r by (rule Cons.IH)
qed

lemma reachable_feed_advance:
  assumes "map_option (\<lambda>s. s\<lparr>tokenizer := tk\<rparr>) (feed n ts (newParser h opts tk0)) = Some s'"
  shows "reachable s'"
proof -
  from assms obtain u where u: "feed n ts (newParser h opts tk0) = Some u"
    and s': "s' = u\<lparr>tokenizer := tk\<rparr>"
    by auto
  from reachable_new u have "reachable u" by (rule reachable_feed)
  then show ?thesis unfolding s' by (rule reachable_advance)
qed

lemma attribdata_pieces:
  "foldl (\<lambda>s v. onattribdata v s) s pieces = s\<lparr>attribvalue := attribvalue s @ concat pieces\<rparr>"
  by (induction pieces arbitrary: s) (simp_all add: onattribdata_def)

lemma feedAttribute_trace:
  "trace (feedAttribute w s (name, pieces, q)) =
     trace s @ (if has_onattribute (cbs s)
                then [(H_onattribute (foldAttribName s name) (attribvalue s @ concat pieces) w q,
                       startIndex s, endIndex s)]
                else [])"
  by (simp add: attribdata_pieces onattribend_trace foldAttribName_def)

lemma feedAttribute_attribs:
  "attribs (feedAttribute w s (name, pieces, q)) =
     (case attribs s of
        None \<Rightarrow> None
      | Some a \<Rightarrow> if foldAttribName s name \<in> fst ` set a then Some a
                  else Some (setProperty a (foldAttribName s name)
                               (attribvalue s @ concat pieces)))"
  by (simp add: attribdata_pieces onattribend_attribs foldAttribName_def split: option.split)

lemma feedAttribute_fields [simp]:
  "startIndex (feedAttribute w s a) = startIndex s" "endIndex (feedAttribute w s a) = endIndex s"
  "tagname (feedAttribute w s a) = tagname s"
  "stack (feedAttribute w s a) = stack s" "foreignContext (feedAttribute w s a) = foreignContext s"
  "cbs (feedAttribute w s a) = cbs s" "options (feedAttribute w s a) = options s"
  "lowerCaseTagNames (feedAttribute w s a) = lowerCaseTagNames s"
  "lowerCaseAttributeNames (feedAttribute w s a) = lowerCaseAttributeNames s"
  "tokenizer (feedAttribute w s a) = tokenizer s"
  "attribname (feedAttribute w s a) = []" "attribvalue (feedAttribute w s a) = []"
  by (cases a; cases "snd a"; simp add: attribdata_pieces)+

declare feedAttribute.simps [simp del]

lemma map_of_known_key:
  "k \<in> fst ` set a \<Longrightarrow> map_of (a @ (k, v) # rest) = map_of (a @ rest)"
proof
  fix x
  assume k: "k \<in> fst ` set a"
  then obtain y where "map_of a k = Some y"
    by (metis map_of_eq_None_iff not_Some_eq)
  then show "map_of (a @ (k, v) # rest) x = map_of (a @ rest) x"
    by (simp add: map_add_def split: option.split)
qed

lemma map_of_first_key:
  assumes "k \<notin> fst ` set a"
  shows "map_of (a @ (k, v) # rest) k = Some v"
proof -
  from assms have "map_of a k = None" by (simp add: map_of_eq_None_iff)
  then show ?thesis by (simp add: map_add_def)
qed

lemma foldAttribName_cong:
  "lowerCaseAttributeNames s' = lowerCaseAttributeNames s \<Longrightarrow> foldAttribName s' = foldAttribName s"
  by (rule ext) (simp add: foldAttribName_def)

text \<open>The attributes that get stored: all but those named \<open>__proto__\<close>.\<close>

lemma setProperty_keys:
  "fst ` set (setProperty a k v) = (if k = ''__proto__'' then fst ` set a else insert k (fst ` set a))"
  by (simp add: setProperty_def)

lemma feedAttributes_attribs:
  "attribs s = Some a \<Longrightarrow> attribvalue s = [] \<Longrightarrow> distinct (map fst a) \<Longrightarrow>
   \<exists>m. attribs (feedAttributes w as s) = Some m \<and> distinct (map fst m) \<and>
       map_of m =
         map_of (a @ filter (\<lambda>(k, v). k \<noteq> ''__proto__'')
                       (map (\<lambda>(n, ps, q). (foldAttribName s n, concat ps)) as))"
proof (induction as arbitrary: s a)
  case Nil
  have "attribs (feedAttributes w [] s) = Some a"
    using Nil.prems(1) by (simp add: feedAttributes_def)
  with Nil.prems(3) show ?case by (intro exI [of _ a]) simp
next
  case (Cons x as)
  obtain n ps q where x: "x = (n, ps, q)" by (cases x)
  let ?t = "feedAttribute w s x"
  let ?k = "foldAttribName s n"
  let ?f = "\<lambda>(n, ps, q). (foldAttribName s n, concat ps)"
  let ?g = "filter (\<lambda>(k, v). k \<noteq> ''__proto__'')"
  have f: "foldAttribName ?t = foldAttribName s" by (rule foldAttribName_cong) simp
  have step: "feedAttributes w (x # as) s = feedAttributes w as ?t"
    by (simp add: feedAttributes_def)
  have v: "attribvalue ?t = []" by simp
  show ?case
  proof (cases "?k \<in> fst ` set a \<or> ?k = ''__proto__''")
    case True
    have t: "attribs ?t = Some a"
      using Cons.prems(1) True
      by (auto simp: x feedAttribute_attribs Cons.prems(2) setProperty_def)
    from Cons.IH [OF t v Cons.prems(3)] obtain m
      where m: "attribs (feedAttributes w as ?t) = Some m" "distinct (map fst m)"
        and mo: "map_of m = map_of (a @ ?g (map ?f as))"
      unfolding f by blast
    have "map_of (a @ ?g (map ?f (x # as))) = map_of (a @ ?g (map ?f as))"
    proof (cases "?k = ''__proto__''")
      case True
      then show ?thesis by (simp add: x)
    next
      case False
      with True have "?k \<in> fst ` set a" by simp
      from map_of_known_key [OF this, of "concat ps" "?g (map ?f as)"] show ?thesis
        using False by (simp add: x)
    qed
    with mo have "map_of m = map_of (a @ ?g (map ?f (x # as)))" by (rule trans [OF _ sym])
    with m show ?thesis unfolding step by blast
  next
    case False
    have t: "attribs ?t = Some (a @ [(?k, concat ps)])"
      using Cons.prems(1) False
      by (simp add: x feedAttribute_attribs Cons.prems(2) setProperty_def)
    have d: "distinct (map fst (a @ [(?k, concat ps)]))"
      using False Cons.prems(3) by simp
    from Cons.IH [OF t v d] obtain m
      where m: "attribs (feedAttributes w as ?t) = Some m" "distinct (map fst m)"
        and mo: "map_of m = map_of ((a @ [(?k, concat ps)]) @ ?g (map ?f as))"
      unfolding f by blast
    have e: "(a @ [(?k, concat ps)]) @ ?g (map ?f as) = a @ ?g (map ?f (x # as))"
      using False by (simp add: x)
    have "map_of m = map_of (a @ ?g (map ?f (x # as)))" using mo unfolding e .
    with m show ?thesis unfolding step by blast
  qed
qed

lemma feedAttributes_fields [simp]:
  "startIndex (feedAttributes w as s) = startIndex s"
  "endIndex (feedAttributes w as s) = endIndex s"
  "tagname (feedAttributes w as s) = tagname s"
  "stack (feedAttributes w as s) = stack s"
  "foreignContext (feedAttributes w as s) = foreignContext s"
  "cbs (feedAttributes w as s) = cbs s" "options (feedAttributes w as s) = options s"
  "lowerCaseTagNames (feedAttributes w as s) = lowerCaseTagNames s"
  "lowerCaseAttributeNames (feedAttributes w as s) = lowerCaseAttributeNames s"
  "tokenizer (feedAttributes w as s) = tokenizer s"
  by (induction as arbitrary: s; simp add: feedAttributes_def)+

lemma onopentagname_attribs:
  assumes "onopentagname k name w s0 = Some s" and "has_onopentag (cbs s0)"
  shows "attribs s = Some []"
proof -
  from assms(1) obtain n where k: "k = Suc n" by (cases k) auto
  let ?N = "foldTagName s0 name"
  let ?t = "s0\<lparr>tagname := ?N\<rparr>"
  from assms(1) obtain u where s: "s = pushOpenTag ?N w u"
    and u: "u = ?t \<or> (\<exists>els. closeImplied n els w ?t = Some u)"
    by (auto simp: k Let_def split: if_splits option.splits)
  from u have "cbs u = cbs s0"
    using closeImplied_keeps [of n _ w ?t u] by (auto simp: keeps_def)
  with assms(2) show ?thesis by (simp add: s pushOpenTag_attribs)
qed

lemma updatePosition_startIndex:
  "startIndex (updatePosition k s) =
     (case endIndex s of
        None \<Rightarrow> if sectionStart (tokenizer s) \<le> k then 0 else sectionStart (tokenizer s) - k
      | Some e \<Rightarrow> e + 1)"
  by (simp add: updatePosition_def Let_def split: option.split)

lemma onclosetag_found:
  assumes "stack s \<noteq> []" and "\<not> isVoidElement s (foldTagName s name0)"
    and "lastIndexOf (stack s) (foldTagName s name0) = Some pos"
  shows "onclosetag (Suc n) name0 w s =
           Some (if has_onclosetag (cbs s)
                 then popClose (length (stack s) - pos) w (beginClose (foldTagName s name0) s)
                 else (beginClose (foldTagName s name0) s)\<lparr>stack := take pos (stack s)\<rparr>)"
  using assms by (simp add: Let_def del: popClose.simps)

lemma lastIndexOf_less: "lastIndexOf xs x = Some i \<Longrightarrow> i < length xs"
  by (induction xs arbitrary: i) (auto split: option.splits if_splits)

lemmas nested_simps = onclosetag.simps onopentagname.simps closeImplied.simps

declare nested_simps [simp del]

lemma fold_p [simp]: "foldTagName s ''p'' = ''p''"
  by (simp add: foldTagName_def toLowerCase_def lowerChar_def)

lemma fold_br [simp]: "foldTagName s ''br'' = ''br''"
  by (simp add: foldTagName_def toLowerCase_def lowerChar_def)

lemma openImpliesClose_p: "openImpliesClose ''p'' = Some [''p'']"
  by (simp add: openImpliesClose_def openImpliesCloseTable_def pTag_def)

lemma openImpliesClose_br: "openImpliesClose ''br'' = None"
  by (simp add: openImpliesClose_def openImpliesCloseTable_def)

lemma void_p [simp]: "\<not> isVoidElement s ''p''"
  by (simp add: isVoidElement_def voidElements_def)

lemma void_br [simp]: "isVoidElement s ''br'' \<longleftrightarrow> \<not> xmlMode (options s)"
  by (simp add: isVoidElement_def voidElements_def)

lemma onopentagname_p:
  assumes "\<not> xmlMode (options s)" and "''p'' \<notin> set (stack s)"
  shows "onopentagname (Suc (Suc n)) ''p'' w s = Some (pushOpenTag ''p'' w (s\<lparr>tagname := ''p''\<rparr>))"
proof -
  have "stack s \<noteq> [] \<Longrightarrow> last (stack s) \<noteq> ''p''"
    using assms(2) last_in_set by metis
  then show ?thesis using assms(1) by (auto simp: nested_simps Let_def openImpliesClose_p)
qed

lemma onopentagname_br:
  "onopentagname (Suc n) ''br'' w s = Some (pushOpenTag ''br'' w (s\<lparr>tagname := ''br''\<rparr>))"
  by (simp add: nested_simps Let_def openImpliesClose_br)

lemma onclosetag_stray:
  assumes x: "\<not> xmlMode (options s)" and N: "foldTagName s name0 = N"
    and c: "stack s \<noteq> [] \<and> N = ''p'' \<and> ''p'' \<notin> set (stack s) \<or>
            (N = ''p'' \<or> N = ''br'') \<and> (stack s = [] \<or> isVoidElement s N)"
  shows "onclosetag (Suc (Suc (Suc n))) name0 w s = Some (strayClose N w s)"
proof -
  let ?b = "beginClose N s"
  have p: "''p'' \<notin> set (stack ?b)" if "N = ''p''"
    using c that by auto
  have o: "onopentagname (Suc (Suc n)) N w ?b = Some (pushOpenTag N w (?b\<lparr>tagname := N\<rparr>))"
    if "N = ''p'' \<or> N = ''br''"
    using that x p onopentagname_p [of ?b n w] onopentagname_br [of "Suc n" w ?b] by auto
  from c have pb: "N = ''p'' \<or> N = ''br''" by auto
  have li: "lastIndexOf (stack s) N = None" if "N = ''p''" "stack s \<noteq> []"
    using c that by (auto simp: lastIndexOf_None)
  have "onclosetag (Suc (Suc (Suc n))) name0 w s =
          map_option (closeCurrentTag w) (onopentagname (Suc (Suc n)) N w ?b)"
    using c x N li
    by (auto simp add: onclosetag.simps Let_def)
  then show ?thesis by (simp add: o [OF pb] strayClose_def)
qed

lemma strayClose_stack:
  assumes "N = ''p'' \<or> N = ''br''" and "noVoid s"
  shows "stack (strayClose N w s) = stack s"
proof -
  have "\<not> (stack s \<noteq> [] \<and> last (stack s) = ''br'')" if "\<not> xmlMode (options s)"
  proof
    assume a: "stack s \<noteq> [] \<and> last (stack s) = ''br''"
    then have "''br'' \<in> set (stack s)" using last_in_set by metis
    with assms(2) that show False by (auto simp: noVoid_def)
  qed
  then show ?thesis
    using assms(1)
    by (auto simp: strayClose_def closeCurrentTag_stack pushOpenTag_stack)
qed

lemma p_not_void: "''p'' \<notin> set voidElements"
  by (simp add: voidElements_def)

lemma br_void: "''br'' \<in> set voidElements"
  by (simp add: voidElements_def)

lemma strayClose_trace:
  assumes x: "\<not> xmlMode (options s)" and pb: "N = ''p'' \<or> N = ''br''" and nv: "noVoid s"
  shows "map fst (trace (strayClose N w s)) =
           map fst (trace s) @
           (if has_onopentagname (cbs s) then [H_onopentagname N w] else []) @
           (if has_onopentag (cbs s) then [H_onopentag N [] w] else []) @
           (if has_onclosetag (cbs s) then [H_onclosetag N w] else [])"
proof -
  let ?t = "(beginClose N s)\<lparr>tagname := N\<rparr>"
  let ?u = "pushOpenTag N w ?t"
  have br: "\<not> (stack s \<noteq> [] \<and> last (stack s) = ''br'')"
  proof
    assume a: "stack s \<noteq> [] \<and> last (stack s) = ''br''"
    then have "''br'' \<in> set (stack s)" using last_in_set by metis
    with nv x show False by (auto simp: noVoid_def)
  qed
  have u: "map fst (trace ?u) =
      map fst (trace s) @ (if has_onopentagname (cbs s) then [H_onopentagname N w] else [])"
    by (simp add: pushOpenTag_trace)
  have a: "attribs ?u = (if has_onopentag (cbs s) then Some [] else attribs s)"
    by (simp add: pushOpenTag_attribs)
  have st: "stack ?u = (if N = ''br'' then stack s else stack s @ [N])"
    using x pb by (auto simp: pushOpenTag_stack isVoidElement_def p_not_void br_void)
  have v: "isVoidElement ?u N \<longleftrightarrow> N = ''br''"
    using x pb by (auto simp: isVoidElement_def p_not_void br_void)
  have "map fst (trace (closeCurrentTag w ?u)) =
      map fst (trace ?u) @
      (if has_onopentag (cbs s) then [H_onopentag N [] w] else []) @
      (if has_onclosetag (cbs s) then [H_onclosetag N w] else [])"
    using br pb
    by (auto simp: closeCurrentTag_trace onopentagend_trace a st v split: option.split)
  then show ?thesis by (simp add: strayClose_def u)
qed

lemma butlast_neq: "xs \<noteq> [] \<Longrightarrow> butlast xs \<noteq> xs"
  by (metis length_butlast diff_less length_greater_0_conv less_irrefl zero_less_one)

lemma closable_pTag: "closable pTag"
  by (simp add: closable_def pTag_def toLowerCase_def lowerChar_def
      foreignContextElements_def htmlIntegrationElements_def)

lemma closable_formTags: "closable formTags"
  by (simp add: closable_def formTags_def toLowerCase_def lowerChar_def
      foreignContextElements_def htmlIntegrationElements_def)

lemma table_closable: "list_all (\<lambda>(k, els). closable els) openImpliesCloseTable"
  by (simp add: openImpliesCloseTable_def closable_pTag closable_formTags)
     (simp add: closable_def toLowerCase_def lowerChar_def
        foreignContextElements_def htmlIntegrationElements_def)

lemma openImpliesClose_closable: "openImpliesClose N = Some els \<Longrightarrow> closable els"
proof -
  assume "openImpliesClose N = Some els"
  then have "(N, els) \<in> set openImpliesCloseTable"
    by (simp add: openImpliesClose_def map_of_SomeD)
  with table_closable show ?thesis by (auto simp: list_all_iff)
qed

lemma beginClose_foreignContext:
  "x \<notin> set foreignContextElements \<Longrightarrow> x \<notin> set htmlIntegrationElements \<Longrightarrow>
   foreignContext (beginClose x s) = foreignContext s"
  by (simp add: beginClose_def Let_def)

lemma onclosetag_top:
  assumes st: "stack s = pre @ [x]" and nv: "noVoid s"
    and lc: "toLowerCase x = x" and f: "x \<notin> set foreignContextElements"
    and h: "x \<notin> set htmlIntegrationElements"
  shows "\<exists>s'. onclosetag (Suc n) x w s = Some s' \<and> stack s' = pre \<and>
           map fst (trace s') =
             map fst (trace s) @ (if has_onclosetag (cbs s) then [H_onclosetag x w] else []) \<and>
           sameTag s s' \<and> keeps s s'"
proof -
  have fx: "foldTagName s x = x" using lc by (simp add: foldTagName_def)
  let ?b = "beginClose x s"
  have ne: "stack s \<noteq> []" using st by simp
  have v: "\<not> isVoidElement s (foldTagName s x)"
    using nv st by (simp add: fx noVoid_def)
  have pos: "lastIndexOf (stack s) (foldTagName s x) = Some (length pre)"
    using lastIndexOf_append [of x "[]" pre] by (simp add: fx st)
  note r = onclosetag_found [OF ne v pos, of n w, unfolded fx]
  have k: "keeps s s'" if "onclosetag (Suc n) x w s = Some s'" for s'
    using that by (rule onclosetag_keeps)
  show ?thesis
  proof (cases "has_onclosetag (cbs s)")
    case True
    have "stack (popClose (Suc 0) w ?b) = pre"
      by (simp add: popClose_stack st del: popClose.simps)
    moreover have "map fst (trace (popClose (Suc 0) w ?b)) = map fst (trace s) @ [H_onclosetag x w]"
      using popClose_trace [of "Suc 0" ?b w] by (simp add: st del: popClose.simps)
    moreover have "sameTag s (popClose (Suc 0) w ?b)"
      by (simp add: sameTag_def beginClose_foreignContext [OF f h] del: popClose.simps)
    ultimately show ?thesis using r True k st by (simp del: popClose.simps)
  next
    case False
    have "sameTag s (?b\<lparr>stack := take (length pre) (stack s)\<rparr>)"
      by (simp add: sameTag_def beginClose_foreignContext [OF f h])
    then show ?thesis using r False k st by simp
  qed
qed

lemma sameTag_trans: "sameTag s t \<Longrightarrow> sameTag t u \<Longrightarrow> sameTag s u"
  by (simp add: sameTag_def)

lemma closeImplied_run:
  assumes "noVoid s" and "closable els" and "stack s = pre @ post"
    and "set post \<subseteq> set els" and "pre = [] \<or> last pre \<notin> set els" and "length post < n"
  shows "\<exists>s'. closeImplied n els w s = Some s' \<and> stack s' = pre \<and>
           map fst (trace s') =
             map fst (trace s) @
             (if has_onclosetag (cbs s) then map (\<lambda>x. H_onclosetag x w) (rev post) else []) \<and>
           sameTag s s' \<and> keeps s s'"
  using assms
proof (induction post arbitrary: s n rule: rev_induct)
  case Nil
  from Nil.prems(6) obtain k where n: "n = Suc k" by (cases n) auto
  have "\<not> (stack s \<noteq> [] \<and> last (stack s) \<in> set els)"
    using Nil.prems(3,5) by auto
  then have "closeImplied n els w s = Some s" by (auto simp: n closeImplied.simps)
  then show ?case using Nil.prems(3) by (simp add: sameTag_def keeps_refl)
next
  case (snoc x ps)
  from snoc.prems(6) obtain k where n: "n = Suc (Suc k)" and k: "length ps < Suc k"
    by (cases n; cases "n - 1") auto
  have xe: "x \<in> set els" using snoc.prems(4) by simp
  with snoc.prems(2) have cl: "toLowerCase x = x" "x \<notin> set foreignContextElements"
      "x \<notin> set htmlIntegrationElements"
    by (auto simp: closable_def list_all_iff)
  have st: "stack s = (pre @ ps) @ [x]" using snoc.prems(3) by simp
  from onclosetag_top [OF st snoc.prems(1) cl, of k w]
  obtain t where t: "onclosetag (Suc k) x w s = Some t" and tst: "stack t = pre @ ps"
    and ttr: "map fst (trace t) =
                map fst (trace s) @ (if has_onclosetag (cbs s) then [H_onclosetag x w] else [])"
    and tsame: "sameTag s t" and tk: "keeps s t"
    by blast
  from tk snoc.prems(1) have tnv: "noVoid t" and tcb: "cbs t = cbs s"
    by (simp_all add: keeps_def)
  have sub: "set ps \<subseteq> set els" using snoc.prems(4) by simp
  from snoc.IH [OF tnv snoc.prems(2) tst sub snoc.prems(5) k]
  obtain u where u: "closeImplied (Suc k) els w t = Some u" and ust: "stack u = pre"
    and utr: "map fst (trace u) =
                map fst (trace t) @
                (if has_onclosetag (cbs t) then map (\<lambda>x. H_onclosetag x w) (rev ps) else [])"
    and usame: "sameTag t u" and uk: "keeps t u"
    by blast
  have "closeImplied n els w s = Some u"
    using t u xe st by (simp add: n closeImplied.simps)
  moreover have "map fst (trace u) =
      map fst (trace s) @
      (if has_onclosetag (cbs s) then map (\<lambda>x. H_onclosetag x w) (rev (ps @ [x])) else [])"
    by (simp add: utr ttr tcb)
  ultimately show ?case
    using ust sameTag_trans [OF tsame usame] keeps_trans [OF tk uk] by simp
qed

section \<open>The bound on nested calls\<close>

lemma onclosetag_stray_call:
  "strays s name \<Longrightarrow>
   onclosetag (Suc k) name w s =
     map_option (closeCurrentTag w)
       (onopentagname k (foldTagName s name) w (beginClose (foldTagName s name) s))"
  by (auto simp: strays_def onclosetag.simps Let_def split: if_splits)

lemma onclosetag_direct:
  "\<not> strays s name \<Longrightarrow> onclosetag (Suc k) name w s = onclosetag (Suc 0) name w s"
  by (auto simp: strays_def onclosetag.simps Let_def split: option.split)

lemma onclosetag_direct_returns:
  "\<not> strays s name \<Longrightarrow> \<exists>s'. onclosetag (Suc 0) name w s = Some s'"
  by (auto simp: strays_def onclosetag.simps Let_def split: option.split)

lemma nested_bound_Suc:
  "(\<forall>name w s s'. onclosetag n name w s = Some (s' :: 'w parser) \<longrightarrow>
       onclosetag (Suc n) name w s = Some s') \<and>
   (\<forall>name w s s'. onopentagname n name w s = Some (s' :: 'w parser) \<longrightarrow>
       onopentagname (Suc n) name w s = Some s') \<and>
   (\<forall>els w s s'. closeImplied n els w s = Some (s' :: 'w parser) \<longrightarrow>
       closeImplied (Suc n) els w s = Some s')"
proof (induction n)
  case 0
  show ?case by (simp add: nested_simps)
next
  case (Suc n)
  have c: "onclosetag (Suc (Suc n)) name w s = Some s'"
    if a: "onclosetag (Suc n) name w s = Some s'" for name w and s s' :: "'w parser"
  proof (cases "strays s name")
    case True
    let ?N = "foldTagName s name"
    let ?b = "beginClose ?N s"
    from a obtain t where t: "onopentagname n ?N w ?b = Some t" and s': "s' = closeCurrentTag w t"
      by (auto simp: onclosetag_stray_call [OF True])
    from t Suc.IH have "onopentagname (Suc n) ?N w ?b = Some t" by blast
    then show ?thesis by (simp add: onclosetag_stray_call [OF True] s')
  next
    case False
    then show ?thesis using a onclosetag_direct [OF False, of "Suc n" w] onclosetag_direct [OF False, of n w]
      by simp
  qed
  have o: "onopentagname (Suc (Suc n)) name w s = Some s'"
    if a: "onopentagname (Suc n) name w s = Some s'" for name w and s s' :: "'w parser"
  proof (cases "\<not> xmlMode (options s) \<and> openImpliesClose (foldTagName s name) \<noteq> None")
    case True
    let ?N = "foldTagName s name"
    let ?t = "s\<lparr>tagname := ?N\<rparr>"
    from True obtain els where els: "openImpliesClose ?N = Some els" by auto
    from a True els obtain u where u: "closeImplied n els w ?t = Some u"
      and s': "s' = pushOpenTag ?N w u"
      by (auto simp: onopentagname.simps Let_def)
    from u Suc.IH have "closeImplied (Suc n) els w ?t = Some u" by blast
    then show ?thesis using True els by (simp add: onopentagname.simps(2) [of "Suc n"] Let_def s')
  next
    case False
    then show ?thesis using a by (auto simp: onopentagname.simps Let_def)
  qed
  have l: "closeImplied (Suc (Suc n)) els w s = Some s'"
    if "closeImplied (Suc n) els w s = Some s'" for els w and s s' :: "'w parser"
  proof (cases "stack s \<noteq> [] \<and> last (stack s) \<in> set els")
    case True
    with that obtain t where t: "onclosetag n (last (stack s)) w s = Some t"
      and u: "closeImplied n els w t = Some s'"
      by (auto simp: closeImplied.simps split: option.splits)
    from t Suc.IH have "onclosetag (Suc n) (last (stack s)) w s = Some t" by blast
    moreover from u Suc.IH have "closeImplied (Suc n) els w t = Some s'" by blast
    ultimately show ?thesis using True by (simp add: closeImplied.simps(2) [of "Suc n"])
  next
    case False
    with that show ?thesis by (auto simp: closeImplied.simps)
  qed
  from c o l show ?case by blast
qed

lemma onclosetag_bound_Suc:
  "onclosetag n name w s = Some s' \<Longrightarrow> onclosetag (Suc n) name w s = Some s'"
  by (rule nested_bound_Suc [THEN conjunct1, rule_format])

lemma onopentagname_bound_Suc:
  "onopentagname n name w s = Some s' \<Longrightarrow> onopentagname (Suc n) name w s = Some s'"
  by (rule nested_bound_Suc [THEN conjunct2, THEN conjunct1, rule_format])

lemma onclosetag_bound_mono:
  "n \<le> m \<Longrightarrow> onclosetag n name w s = Some s' \<Longrightarrow> onclosetag m name w s = Some s'"
  by (induction rule: dec_induct) (simp_all add: onclosetag_bound_Suc)

lemma onopentagname_bound_mono:
  "n \<le> m \<Longrightarrow> onopentagname n name w s = Some s' \<Longrightarrow> onopentagname m name w s = Some s'"
  by (induction rule: dec_induct) (simp_all add: onopentagname_bound_Suc)

lemma suffix_split:
  "\<exists>pre post. xs = pre @ post \<and> set post \<subseteq> A \<and> (pre = [] \<or> last pre \<notin> A)"
proof (induction xs rule: rev_induct)
  case Nil
  show ?case by simp
next
  case (snoc x xs)
  show ?case
  proof (cases "x \<in> A")
    case True
    from snoc obtain pre post where "xs = pre @ post" "set post \<subseteq> A" "pre = [] \<or> last pre \<notin> A"
      by blast
    with True have "xs @ [x] = pre @ (post @ [x]) \<and> set (post @ [x]) \<subseteq> A \<and>
        (pre = [] \<or> last pre \<notin> A)"
      by simp
    then show ?thesis by blast
  next
    case False
    then have "xs @ [x] = (xs @ [x]) @ [] \<and> set [] \<subseteq> A \<and>
        (xs @ [x] = [] \<or> last (xs @ [x]) \<notin> A)"
      by simp
    then show ?thesis by blast
  qed
qed

lemma onopentagname_returns:
  assumes nv: "noVoid s" and n: "length (stack s) + 2 \<le> n"
  shows "\<exists>s'. onopentagname n name w s = Some s'"
proof -
  from n obtain k where k: "n = Suc k" and lt: "length (stack s) < k"
    by (cases n) auto
  let ?N = "foldTagName s name"
  let ?t = "s\<lparr>tagname := ?N\<rparr>"
  show ?thesis
  proof (cases "\<not> xmlMode (options s) \<and> openImpliesClose ?N \<noteq> None")
    case True
    then obtain els where els: "openImpliesClose ?N = Some els" by auto
    from suffix_split [of "stack ?t" "set els"] obtain pre post
      where st: "stack ?t = pre @ post" and post: "set post \<subseteq> set els"
        and pre: "pre = [] \<or> last pre \<notin> set els"
      by blast
    from st lt have lp: "length post < k" by simp
    have nv': "noVoid ?t" using nv by (simp add: noVoid_def isVoidElement_def)
    from closeImplied_run [OF nv' openImpliesClose_closable [OF els] st post pre lp, of w]
    obtain u where "closeImplied k els w ?t = Some u" by blast
    then show ?thesis using True els by (simp add: k onopentagname.simps Let_def)
  next
    case False
    then show ?thesis by (auto simp: k onopentagname.simps Let_def)
  qed
qed

lemma onclosetag_returns:
  assumes nv: "noVoid s" and n: "length (stack s) + 3 \<le> n"
  shows "\<exists>s'. onclosetag n name w s = Some s'"
proof -
  from n obtain k where k: "n = Suc k" and le: "length (stack s) + 2 \<le> k"
    by (cases n) auto
  let ?N = "foldTagName s name"
  let ?b = "beginClose ?N s"
  show ?thesis
  proof (cases "strays s name")
    case True
    have "noVoid ?b" using nv keeps_beginClose [of s ?N] by (simp add: keeps_def)
    from onopentagname_returns [OF this, of k ?N w] le
    obtain t where "onopentagname k ?N w ?b = Some t" by auto
    then show ?thesis by (simp add: k onclosetag_stray_call [OF True])
  next
    case False
    then show ?thesis
      using onclosetag_direct [OF False, of k w] onclosetag_direct_returns [OF False, of w]
      by (simp add: k)
  qed
qed

text \<open>
  In a reachable state every call of the tokenizer returns, if the bound exceeds the
  depth of the stack by three; and a larger bound gives the same state.
\<close>

lemma dispatch_returns:
  assumes r: "reachable s" and n: "length (stack s) + 3 \<le> n"
  shows "\<exists>s'. dispatch n t s = Some s'"
proof -
  from r have nv: "noVoid s" by (rule reachable_noVoid)
  show ?thesis
  proof (cases t)
    case (T_opentagname name w)
    then show ?thesis using onopentagname_returns [OF nv, of n name w] n by simp
  next
    case (T_closetag name w)
    then show ?thesis using onclosetag_returns [OF nv n, of name w] by simp
  qed simp_all
qed

lemma dispatch_bound_mono:
  "n \<le> m \<Longrightarrow> dispatch n t s = Some s' \<Longrightarrow> dispatch m t s = Some s'"
  by (cases t) (auto simp: onclosetag_bound_mono onopentagname_bound_mono)

section \<open>The positions of the events\<close>

lemma updatePosition_nextStart: "startIndex (updatePosition k s) = nextStart k s"
  by (simp add: updatePosition_startIndex nextStart_def)












lemma onopentagend_position:
  "position (onopentagend w s) = (nextStart 1 s, Some (absoluteIndex (tokenizer s)))"
  by (simp add: position_def updatePosition_nextStart)







lemma tagname_update_position [simp]:
  "position (s\<lparr>tagname := N\<rparr>) = position s" "recomputed (s\<lparr>tagname := N\<rparr>) = recomputed s"
  by (simp_all add: position_def recomputed_def nextStart_def split: option.split)

lemma stack_update_position [simp]:
  "position (s\<lparr>stack := xs\<rparr>) = position s"
  by (simp add: position_def)










section \<open>Evaluating concrete sessions\<close>

lemmas run_defs =
  newParser_def call_def emit_def updatePosition_def ontext_def onopentagend_def
  closeCurrentTag_def pushOpenTag_def beginClose_def foldTagName_def toLowerCase_def
  lowerChar_def isVoidElement_def voidElements_def openImpliesClose_def
  openImpliesCloseTable_def pTag_def formTags_def foreignContextElements_def
  htmlIntegrationElements_def onselfclosingtag_def selfClosing_def onattribname_def
  onattribdata_def onattribend_def setProperty_def onend_def oncomment_def oncdata_def reset_def
  htmlOptions_def everyCallback_def tokenizerAt_def Let_def
  numeral_2_eq_2 numeral_3_eq_3 nested_simps

lemmas attribute_defs =
  feedAttributes_def feedAttribute.simps foldAttribName_def

lemma svgPathSession_run:
  "map_option (\<lambda>s. (map fst (trace s), stack s))
     (feed 2 svgPathSession (newParser everyCallback htmlOptions (tokenizerAt 0 0))) =
   Some ([H_onparserinit, H_onopentagname ''svg'' (), H_onopentag ''svg'' [] (),
          H_onopentagname ''path'' (), H_onopentag ''path'' [] (), H_onclosetag ''path'' (),
          H_onclosetag ''svg'' ()], [])"
  by (simp add: svgPathSession_def run_defs)

lemma nestedState_run:
  "map_option (\<lambda>s. s\<lparr>tokenizer := tokenizerAt 16 17\<rparr>)
     (feed 2 (take 6 unclosedSession) (newParser everyCallback htmlOptions (tokenizerAt 0 0))) =
   Some nestedState"
  by (simp add: unclosedSession_def nestedState_def run_defs)

lemma brOpened_run:
  "feed 1 [(tokenizerAt 1 3, T_opentagname ''BR'' ())]
     (newParser everyCallback htmlOptions (tokenizerAt 0 0)) = Some brOpened"
  by (simp add: brOpened_def run_defs)

lemma aOpened_run:
  "onopentagname 1 ''a'' () (newParser everyCallback htmlOptions (tokenizerAt 1 2)) = Some aOpened"
  by (simp add: aOpened_def run_defs)

lemma pathOpened_run:
  "map_option (\<lambda>s. s\<lparr>tokenizer := tokenizerAt 6 11\<rparr>)
     (feed 2 (take 3 svgPathSession) (newParser everyCallback htmlOptions (tokenizerAt 0 0))) =
   Some pathOpened"
  by (simp add: svgPathSession_def pathOpened_def run_defs)

lemma textState_run:
  "map_option (\<lambda>s. s\<lparr>tokenizer := tokenizerAt 3 8\<rparr>)
     (feed 2 [(tokenizerAt 1 2, T_opentagname ''b'' ()), (tokenizerAt 1 2, T_opentagend ())]
        (newParser everyCallback htmlOptions (tokenizerAt 0 0))) =
   Some textState"
  by (simp add: textState_def run_defs)

lemma listSession_run:
  "map_option (\<lambda>s. (map fst (trace s), stack s))
     (feed 3 listSession (newParser everyCallback htmlOptions (tokenizerAt 0 0))) =
   Some ([H_onparserinit,
          H_onopentagname ''ul'' (), H_onopentag ''ul'' [] (),
          H_onopentagname ''li'' (), H_onopentag ''li'' [] (), H_ontext ''a'' (),
          H_onclosetag ''li'' (),
          H_onopentagname ''li'' (), H_onopentag ''li'' [] (), H_ontext ''b'' (),
          H_onclosetag ''li'' (), H_onclosetag ''ul'' ()], [])"
  by (simp add: listSession_def run_defs)

lemma itemOpen_run:
  "map_option (\<lambda>s. s\<lparr>tokenizer := tokenizerAt 10 12\<rparr>)
     (feed 3 (take 5 listSession) (newParser everyCallback htmlOptions (tokenizerAt 0 0))) =
   Some itemOpen"
  by (simp add: listSession_def itemOpen_def run_defs)

section \<open>Close tags found on the stack\<close>

text \<open>
  Claim C1. A close tag whose folded name \<open>N\<close> is not void and lies on the stack,
  its topmost occurrence having \<open>post\<close> above it (depth \<open>d = length post + 1\<close>):
  the call returns, the stack keeps exactly the part \<open>pre\<close> below that occurrence,
  so its length drops by \<open>d\<close>; with a close-tag callback the handler receives one
  close event per popped element, from the top of the stack down to \<open>N\<close>, and
  without the callback it receives nothing.
\<close>

theorem onclosetag_found_on_stack:
  assumes st: "stack s = pre @ N # post" and top: "N \<notin> set post"
    and nm: "foldTagName s name0 = N" and nv: "\<not> isVoidElement s N"
  shows "\<exists>s'. onclosetag (Suc n) name0 w s = Some s' \<and>
           stack s' = pre \<and>
           length (stack s') = length (stack s) - Suc (length post) \<and>
           trace s' = trace s @
             (if has_onclosetag (cbs s)
              then map (\<lambda>x. (H_onclosetag x w, startIndex (updatePosition 1 s),
                              Some (absoluteIndex (tokenizer s))))
                     (rev post @ [N])
              else [])"
proof -
  let ?b = "beginClose N s"
  have pos: "lastIndexOf (stack ?b) N = Some (length pre)"
    using st top by (simp add: lastIndexOf_append)
  have ne: "stack ?b \<noteq> []" using st by simp
  show ?thesis
  proof (cases "has_onclosetag (cbs s)")
    case True
    have eq: "onclosetag (Suc n) name0 w s = Some (popClose (Suc (length post)) w ?b)"
      using pos ne nv True nm st by (simp add: onclosetag.simps Let_def del: popClose.simps)
    have tr: "trace (popClose (Suc (length post)) w ?b) =
        trace s @ map (\<lambda>x. (H_onclosetag x w, startIndex (updatePosition 1 s),
                              Some (absoluteIndex (tokenizer s)))) (rev post @ [N])"
      using st popClose_trace [of "Suc (length post)" ?b w] by (simp del: popClose.simps)
    have sk: "stack (popClose (Suc (length post)) w ?b) = pre"
      using st by (simp add: popClose_stack del: popClose.simps)
    show ?thesis using eq tr sk True st by (simp del: popClose.simps)
  next
    case False
    have eq: "onclosetag (Suc n) name0 w s = Some (?b\<lparr>stack := take (length pre) (stack ?b)\<rparr>)"
      using pos ne nv False nm by (simp add: onclosetag.simps Let_def)
    show ?thesis using eq False st by simp
  qed
qed

theorem onclosetag_found_on_stack_witness:
  "\<exists>s'. onclosetag 1 ''P'' () nestedState = Some s' \<and>
           stack s' = [''div''] \<and>
           length (stack s') = 1 \<and>
           trace s' = trace nestedState @
                      [(H_onclosetag ''span'' (), 14, Some 17),
                       (H_onclosetag ''p'' (), 14, Some 17)]"
  using onclosetag_found_on_stack [of nestedState "[''div'']" "''p''" "[''span'']" "''P''" 0 "()"]
  by (simp add: nestedState_def run_defs)

section \<open>Implied closes\<close>

text \<open>
  Claim C2. The Parser is in a reachable state and not in xml-mode, and the folded name
  \<open>N\<close> of an opened tag has the auto-close set \<open>els\<close>. Let \<open>post\<close> be the top part
  of the stack whose names all belong to \<open>els\<close>, the entry below it (if any) not
  belonging to it. Then the call returns; every element of \<open>post\<close> is popped, and with a
  close-tag callback the handler receives their close events, topmost first, before the
  open-tag-name event of \<open>N\<close>; and \<open>N\<close> is pushed on what is left (unless \<open>N\<close> is
  void). In the session \<open><ul><li>a<li>b</ul>\<close> the first \<open>li\<close> is closed before
  the second one opens, and the second one before \<open>ul\<close> is closed.
\<close>

theorem open_tag_closes_implied:
  assumes r: "reachable s" and x: "\<not> xmlMode (options s)"
    and N: "foldTagName s name0 = N" and els: "openImpliesClose N = Some els"
    and st: "stack s = pre @ post" and post: "set post \<subseteq> set els"
    and pre: "pre = [] \<or> last pre \<notin> set els" and n: "length post + 2 \<le> n"
  shows "(\<exists>s'. onopentagname n name0 w s = Some s' \<and>
            stack s' = (if isVoidElement s N then pre else pre @ [N]) \<and>
            map fst (trace s') =
              map fst (trace s) @
              (if has_onclosetag (cbs s) then map (\<lambda>x. H_onclosetag x w) (rev post) else []) @
              (if has_onopentagname (cbs s) then [H_onopentagname N w] else [])) \<and>
         map_option (\<lambda>s. (map fst (trace s), stack s))
           (feed 3 listSession (newParser everyCallback htmlOptions (tokenizerAt 0 0))) =
         Some ([H_onparserinit,
                H_onopentagname ''ul'' (), H_onopentag ''ul'' [] (),
                H_onopentagname ''li'' (), H_onopentag ''li'' [] (), H_ontext ''a'' (),
                H_onclosetag ''li'' (),
                H_onopentagname ''li'' (), H_onopentag ''li'' [] (), H_ontext ''b'' (),
                H_onclosetag ''li'' (), H_onclosetag ''ul'' ()], [])"
proof -
  from n obtain k where k: "n = Suc k" and lt: "length post < k"
    by (cases n) auto
  let ?t = "s\<lparr>tagname := N\<rparr>"
  from r have "noVoid s" by (rule reachable_noVoid)
  then have nv: "noVoid ?t" by (simp add: noVoid_def isVoidElement_def)
  have cl: "closable els" using els by (rule openImpliesClose_closable)
  have st': "stack ?t = pre @ post" using st by simp
  from closeImplied_run [OF nv cl st' post pre lt, of w]
  obtain u where u: "closeImplied k els w ?t = Some u" and ust: "stack u = pre"
    and utr: "map fst (trace u) =
                map fst (trace ?t) @
                (if has_onclosetag (cbs ?t) then map (\<lambda>x. H_onclosetag x w) (rev post) else [])"
    and uk: "keeps ?t u"
    by blast
  from uk have uo: "options u = options s" and uc: "cbs u = cbs s"
    by (simp_all add: keeps_def)
  have "onopentagname n name0 w s = Some (pushOpenTag N w u)"
    using x N els u by (simp add: k onopentagname.simps Let_def)
  moreover have "stack (pushOpenTag N w u) = (if isVoidElement s N then pre else pre @ [N])"
    by (simp add: pushOpenTag_stack ust isVoidElement_def uo)
  moreover have "map fst (trace (pushOpenTag N w u)) =
      map fst (trace s) @
      (if has_onclosetag (cbs s) then map (\<lambda>x. H_onclosetag x w) (rev post) else []) @
      (if has_onopentagname (cbs s) then [H_onopentagname N w] else [])"
    by (simp add: pushOpenTag_trace utr uc)
  ultimately show ?thesis using listSession_run by simp
qed

theorem open_tag_closes_implied_witness:
  "reachable itemOpen \<and> \<not> xmlMode (options itemOpen) \<and>
   openImpliesClose ''li'' = Some [''li''] \<and> stack itemOpen = [''ul''] @ [''li''] \<and>
   (\<exists>s'. onopentagname 3 ''LI'' () itemOpen = Some s' \<and>
         stack s' = [''ul'', ''li''] \<and>
         map fst (trace s') =
           map fst (trace itemOpen) @ [H_onclosetag ''li'' (), H_onopentagname ''li'' ()])"
proof -
  have r: "reachable itemOpen"
    using itemOpen_run by (rule reachable_feed_advance)
  have e: "openImpliesClose ''li'' = Some [''li'']"
    by (simp add: openImpliesClose_def openImpliesCloseTable_def)
  show ?thesis
    using r e open_tag_closes_implied
      [OF r _ _ e, of "''LI''" "[''ul'']" "[''li'']" 3 "()"]
    by (simp add: itemOpen_def run_defs)
qed

section \<open>End of input\<close>

text \<open>
  Claim C6, at the session \<open><div><p><span>\<close> followed by the end of the input, with
  every callback registered: the handler receives the close events of \<open>span\<close>,
  \<open>p\<close> and \<open>div\<close>, innermost first, and then the end event; but the stack still
  holds its three entries afterwards, since \<open>onend\<close> reads the entries by index and
  pops none.
\<close>

theorem onend_leaves_stack:
  "map_option (\<lambda>s. (map fst (trace s), stack s))
     (feed 2 unclosedSession (newParser everyCallback htmlOptions (tokenizerAt 0 0))) =
   Some ([H_onparserinit,
          H_onopentagname ''div'' (), H_onopentag ''div'' [] (),
          H_onopentagname ''p'' (), H_onopentag ''p'' [] (),
          H_onopentagname ''span'' (), H_onopentag ''span'' [] (),
          H_onclosetag ''span'' (), H_onclosetag ''p'' (), H_onclosetag ''div'' (),
          H_onend],
         [''div'', ''p'', ''span''])"
  by (simp add: unclosedSession_def run_defs)

section \<open>Void elements\<close>

text \<open>
  Claim C3. In every reachable state of a Parser that is not in xml-mode, no name on the
  stack is a void element. When the current tag is void and a close-tag callback is
  registered, \<open>onopentagend\<close> hands the handler the open-tag event (if attributes
  were being collected and the open-tag callback is registered) and directly after it
  exactly one close event for the tag; and a self-closing marker adds no second one.
\<close>

theorem void_elements_never_on_stack:
  assumes r: "reachable s"
  shows "(\<not> xmlMode (options s) \<longrightarrow> (\<forall>x \<in> set (stack s). x \<notin> set voidElements)) \<and>
         (has_onclosetag (cbs s) \<and> isVoidElement s (tagname s) \<longrightarrow>
            trace (onopentagend w s) =
              trace s @
              (case attribs s of
                 Some a \<Rightarrow>
                   if has_onopentag (cbs s)
                   then [(H_onopentag (tagname s) a w, startIndex (updatePosition 1 s),
                          Some (absoluteIndex (tokenizer s)))]
                   else []
               | None \<Rightarrow> []) @
              [(H_onclosetag (tagname s) w, startIndex (updatePosition 1 s),
                Some (absoluteIndex (tokenizer s)))] \<and>
            trace (onselfclosingtag w s) = trace (onopentagend w s))"
proof -
  from r have nv: "noVoid s" by (rule reachable_noVoid)
  then have a: "\<not> xmlMode (options s) \<longrightarrow> (\<forall>x \<in> set (stack s). x \<notin> set voidElements)"
    by (auto simp: noVoid_def isVoidElement_def)
  have top: "\<not> (stack s \<noteq> [] \<and> last (stack s) = tagname s)" if "isVoidElement s (tagname s)"
  proof
    assume "stack s \<noteq> [] \<and> last (stack s) = tagname s"
    then have "tagname s \<in> set (stack s)" using last_in_set by metis
    with nv that show False by (simp add: noVoid_def)
  qed
  have b: "trace (onselfclosingtag w s) = trace (onopentagend w s)" if "isVoidElement s (tagname s)"
    using top [OF that] by (auto simp: onselfclosingtag_def closeCurrentTag_trace)
  show ?thesis using a b by (simp add: onopentagend_trace)
qed

theorem void_elements_never_on_stack_witness:
  "reachable brOpened \<and> \<not> xmlMode (options brOpened) \<and> stack brOpened = [] \<and>
   has_onclosetag (cbs brOpened) \<and> isVoidElement brOpened (tagname brOpened) \<and>
   trace (onopentagend () brOpened) =
     [(H_onparserinit, 0, None), (H_onopentagname ''br'' (), 0, None),
      (H_onopentag ''br'' [] (), 0, Some 3), (H_onclosetag ''br'' (), 0, Some 3)] \<and>
   trace (onselfclosingtag () brOpened) = trace (onopentagend () brOpened)"
proof -
  have r: "reachable brOpened"
    using reachable_feed [OF reachable_new brOpened_run] .
  show ?thesis
    using r void_elements_never_on_stack [OF r, of "()"]
    by (simp add: brOpened_def run_defs)
qed

section \<open>Attributes\<close>

text \<open>
  Claim C10. With an \<open>onattribute\<close> callback, the end of an attribute hands the handler
  the accumulated name (case-folded as configured), the accumulated value (the pieces in
  order) and the quote kind, whatever the attributes object holds: also when the name is
  already a key of it, in which case the object is left as it is.
\<close>

theorem onattribend_reports_every_attribute:
  assumes cb: "has_onattribute (cbs s)" and v: "attribvalue s = []"
  shows "trace (feedAttribute w s (name, pieces, q)) =
           trace s @ [(H_onattribute (foldAttribName s name) (concat pieces) w q,
                       startIndex s, endIndex s)] \<and>
         (\<forall>a. attribs s = Some a \<and> foldAttribName s name \<in> fst ` set a \<longrightarrow>
              attribs (feedAttribute w s (name, pieces, q)) = Some a)"
  using cb v by (simp add: feedAttribute_trace feedAttribute_attribs)

theorem onattribend_reports_every_attribute_witness:
  "has_onattribute (cbs (feedAttribute () aOpened (''href'', [''x''], Quote [CHR 0x22]))) \<and>
   attribs (feedAttribute () aOpened (''href'', [''x''], Quote [CHR 0x22])) =
     Some [(''href'', ''x'')] \<and>
   trace (feedAttribute () (feedAttribute () aOpened (''href'', [''x''], Quote [CHR 0x22]))
            (''HREF'', [''y'', ''z''], NoQuotes)) =
     [(H_onparserinit, 0, None), (H_onopentagname ''a'' (), 0, None),
      (H_onattribute ''href'' ''x'' () (Quote [CHR 0x22]), 0, None),
      (H_onattribute ''href'' ''yz'' () NoQuotes, 0, None)] \<and>
   attribs (feedAttribute () (feedAttribute () aOpened (''href'', [''x''], Quote [CHR 0x22]))
              (''HREF'', [''y'', ''z''], NoQuotes)) =
     Some [(''href'', ''x'')]"
  using onattribend_reports_every_attribute
    [of "feedAttribute () aOpened (''href'', [''x''], Quote [CHR 0x22])" "()" "''HREF''"
        "[''y'', ''z'']" NoQuotes]
  by (simp add: attribute_defs aOpened_def run_defs)

text \<open>
  Claim C9, at the window \<open><a __proto__="x" __proto__="y">\<close> with every callback
  registered: both occurrences are reported to \<open>onattribute\<close>, but the object handed
  to \<open>onopentag\<close> has no entry at all, so it does not hold the value \<open>x\<close> of the
  first occurrence.
\<close>

theorem attribute_named_proto_is_not_stored:
  "map_option (\<lambda>s. map fst (trace s))
     (feed 1 protoSession (newParser everyCallback htmlOptions (tokenizerAt 0 0))) =
   Some [H_onparserinit, H_onopentagname ''a'' (),
         H_onattribute ''__proto__'' ''x'' () (Quote [CHR 0x22]),
         H_onattribute ''__proto__'' ''y'' () (Quote [CHR 0x22]),
         H_onopentag ''a'' [] ()]"
  by (simp add: protoSession_def run_defs)

text \<open>
  For every other name the first occurrence wins. An open-tag window starts with
  \<open>onopentagname\<close>, the open-tag callback being registered and no attribute value
  being left over; then come the attributes, among them \<open>(n, pieces, q)\<close> whose folded
  name is not \<open>__proto__\<close> and occurs in none of the attributes \<open>pre\<close> before it,
  while \<open>post\<close> may repeat it with other values. The object handed to \<open>onopentag\<close>
  maps that name to the value of this first occurrence, and it has one entry per name.
\<close>

lemma first_occurrence_of_ordinary_name:
  assumes op: "onopentagname k name0 w0 s0 = Some s"
    and cb: "has_onopentag (cbs s0)" and v: "attribvalue s0 = []"
    and first: "foldAttribName s n \<notin> (\<lambda>(x, ps, q). foldAttribName s x) ` set pre"
    and ordinary: "foldAttribName s n \<noteq> ''__proto__''"
  shows "\<exists>m. attribs (feedAttributes w (pre @ (n, pieces, q) # post) s) = Some m \<and>
              map_of m (foldAttribName s n) = Some (concat pieces) \<and>
              distinct (map fst m) \<and>
              fst (trace (onopentagend w (feedAttributes w (pre @ (n, pieces, q) # post) s)) !
                   length (trace (feedAttributes w (pre @ (n, pieces, q) # post) s))) =
                H_onopentag (tagname s) m w"
proof -
  let ?as = "pre @ (n, pieces, q) # post"
  let ?s' = "feedAttributes w ?as s"
  let ?f = "\<lambda>(x, ps, q). (foldAttribName s x, concat ps)"
  let ?g = "filter (\<lambda>(k, v). k \<noteq> ''__proto__'')"
  have a: "attribs s = Some []" using op cb by (rule onopentagname_attribs)
  have "keeps s0 s" using op by (rule onopentagname_keeps)
  then have v': "attribvalue s = []" and cb': "has_onopentag (cbs s)"
    using v cb by (simp_all add: keeps_def)
  from feedAttributes_attribs [OF a v', of w ?as]
  obtain m where m: "attribs ?s' = Some m" and d: "distinct (map fst m)"
    and mo: "map_of m = map_of (?g (map ?f ?as))"
    by auto
  have k: "foldAttribName s n \<notin> fst ` set (?g (map ?f pre))"
    using first by (auto simp: image_iff split: prod.splits)
  have "map_of m (foldAttribName s n) = Some (concat pieces)"
    unfolding mo
    using map_of_first_key [OF k, of "concat pieces" "?g (map ?f post)"] ordinary by simp
  then show ?thesis
    using m d cb' by (simp add: onopentagend_trace)
qed

section \<open>Reset\<close>

text \<open>
  Claim C7, at the session \<open><svg><g><a href="x\<close> cut off inside the attribute value:
  before \<open>reset\<close> the start and end offsets are 5 and 7, the foreign-context stack
  is \<open>[True]\<close> and the attribute value is \<open>x\<close>; after \<open>reset\<close> they are all
  the same, and only the stack (with the tag name, the attribute name and the attributes
  object) is cleared.
\<close>

theorem reset_leaves_offsets_and_foreign_context:
  "map_option
     (\<lambda>s. (startIndex s, endIndex s, foreignContext s, attribvalue s,
           startIndex (reset (tokenizerAt 0 0) s), endIndex (reset (tokenizerAt 0 0) s),
           foreignContext (reset (tokenizerAt 0 0) s), attribvalue (reset (tokenizerAt 0 0) s),
           stack (reset (tokenizerAt 0 0) s)))
     (feed 2 svgSession (newParser everyCallback htmlOptions (tokenizerAt 0 0))) =
   Some (5, Some 7, [True], ''x'', 5, Some 7, [True], ''x'', [])"
  by (simp add: svgSession_def run_defs)

section \<open>Source positions\<close>




section \<open>Stray close tags\<close>

text \<open>
  Claim C5. The Parser is in a reachable state and not in xml-mode, and a close tag
  arrives whose folded name \<open>N\<close> is \<open>p\<close> and not on the non-empty stack, or is
  \<open>p\<close> or \<open>br\<close> while the stack is empty or \<open>N\<close> is void. Then the call
  returns, the handler receives the open-tag-name event, the open-tag event with no
  attributes and the close event of \<open>N\<close>, each if its callback is registered and
  nothing else (no error event among them), and the stack is as before.
\<close>

theorem stray_close_tag_recovery:
  assumes r: "reachable s" and x: "\<not> xmlMode (options s)" and N: "foldTagName s name0 = N"
    and c: "stack s \<noteq> [] \<and> N = ''p'' \<and> ''p'' \<notin> set (stack s) \<or>
            (N = ''p'' \<or> N = ''br'') \<and> (stack s = [] \<or> isVoidElement s N)"
    and n: "3 \<le> n"
  shows "\<exists>s'. onclosetag n name0 w s = Some s' \<and> stack s' = stack s \<and>
           map fst (trace s') =
             map fst (trace s) @
             (if has_onopentagname (cbs s) then [H_onopentagname N w] else []) @
             (if has_onopentag (cbs s) then [H_onopentag N [] w] else []) @
             (if has_onclosetag (cbs s) then [H_onclosetag N w] else [])"
proof -
  from r have nv: "noVoid s" by (rule reachable_noVoid)
  from c have pb: "N = ''p'' \<or> N = ''br''" by auto
  from n obtain k where k: "n = Suc (Suc (Suc k))"
    by (metis Suc_le_D numeral_3_eq_3 Suc_le_mono)
  have "onclosetag n name0 w s = Some (strayClose N w s)"
    unfolding k using x N c by (rule onclosetag_stray)
  then show ?thesis
    using strayClose_stack [OF pb nv, of w] strayClose_trace [OF x pb nv, of w] by simp
qed

theorem stray_close_tag_recovery_witness:
  "\<exists>s'. onclosetag 3 ''P'' () (newParser everyCallback htmlOptions (tokenizerAt 0 3)) = Some s' \<and>
        stack s' = [] \<and>
        map fst (trace s') =
          [H_onparserinit, H_onopentagname ''p'' (), H_onopentag ''p'' [] (), H_onclosetag ''p'' ()]"
  using stray_close_tag_recovery
    [OF reachable_new, of everyCallback htmlOptions "tokenizerAt 0 3" "''P''" "''p''" 3 "()"]
  by (simp add: run_defs)

section \<open>Self-closing tags\<close>

text \<open>
  Claim C4 as stated fails for a void tag: for \<open><br/>\<close> with the default options none
  of the three conditions holds, and the tag is opened and closed at once all the same,
  by the open-tag-end processing.
\<close>

theorem void_tag_self_closing_counterexample:
  "\<not> selfClosing brOpened \<and>
   trace (onselfclosingtag () brOpened) =
     trace brOpened @
     [(H_onopentag ''br'' [] (), 0, Some 3), (H_onclosetag ''br'' (), 0, Some 3)]"
  by (simp add: brOpened_def run_defs)

text \<open>
  Claim C4, amended. On a self-closing marker the Parser runs \<open>closeCurrentTag\<close> if
  xml-mode or recognize-self-closing is set or the innermost foreign-context entry is
  true, and otherwise does exactly what it does at an ordinary open-tag end, in every
  state. The open-tag end reports the open-tag event and, for a void tag, its close
  event, and leaves the stack; \<open>closeCurrentTag\<close> does the same and then, if the current
  tag lies on top of the stack, pops it and reports its close event. Hence
  \<^item> for a current tag that is not void and lies on top of the stack, as a tag just
    opened does: it is popped, and its close event follows its open-tag event, if and
    only if one of the three conditions holds; otherwise the stack stays and no close
    event is reported;
  \<^item> for a void current tag in a reachable state: whether or not a condition holds, the
    marker is processed exactly as an ordinary open-tag end, which reports the open-tag
    event and the close event.
  In the session \<open><svg><path/></svg>\<close> with the default options, \<open>path\<close> is closed
  right after it is opened.
\<close>

theorem self_closing_tag:
  fixes s :: "'w parser" and w :: 'w
  defines "condition \<equiv>
      xmlMode (options s) \<or> recognizeSelfClosing (options s) \<or>
      (foreignContext s \<noteq> [] \<and> last (foreignContext s))"
    and "onTop \<equiv> stack s \<noteq> [] \<and> last (stack s) = tagname s"
    and "opened \<equiv>
      (case attribs s of
         Some a \<Rightarrow>
           if has_onopentag (cbs s)
           then [(H_onopentag (tagname s) a w, startIndex (updatePosition 1 s),
                  Some (absoluteIndex (tokenizer s)))]
           else []
       | None \<Rightarrow> [])"
    and "closed \<equiv>
      (if has_onclosetag (cbs s)
       then [(H_onclosetag (tagname s) w, startIndex (updatePosition 1 s),
              Some (absoluteIndex (tokenizer s)))]
       else [])"
  shows "onselfclosingtag w s =
           (if condition then closeCurrentTag w s else onopentagend w s) \<and>
         stack (onopentagend w s) = stack s \<and>
         trace (onopentagend w s) =
           trace s @ opened @ (if isVoidElement s (tagname s) then closed else []) \<and>
         stack (closeCurrentTag w s) = (if onTop then butlast (stack s) else stack s) \<and>
         trace (closeCurrentTag w s) =
           trace (onopentagend w s) @ (if onTop then closed else []) \<and>
         (onTop \<and> \<not> isVoidElement s (tagname s) \<longrightarrow>
            (condition \<longleftrightarrow>
               stack (onselfclosingtag w s) = butlast (stack s) \<and>
               trace (onselfclosingtag w s) = trace s @ opened @ closed) \<and>
            (\<not> condition \<longleftrightarrow>
               stack (onselfclosingtag w s) = stack s \<and>
               trace (onselfclosingtag w s) = trace s @ opened)) \<and>
         (reachable s \<and> isVoidElement s (tagname s) \<longrightarrow>
            onselfclosingtag w s = onopentagend w s \<and>
            stack (onselfclosingtag w s) = stack s \<and>
            trace (onselfclosingtag w s) = trace s @ opened @ closed) \<and>
         map_option (\<lambda>s. (map fst (trace s), stack s))
           (feed 2 svgPathSession (newParser everyCallback htmlOptions (tokenizerAt 0 0))) =
         Some ([H_onparserinit, H_onopentagname ''svg'' (), H_onopentag ''svg'' [] (),
                H_onopentagname ''path'' (), H_onopentag ''path'' [] (),
                H_onclosetag ''path'' (), H_onclosetag ''svg'' ()], [])"
proof -
  have a: "onselfclosingtag w s =
      (if condition then closeCurrentTag w s else onopentagend w s)"
    by (simp add: onselfclosingtag_def selfClosing_def condition_def)
  have b: "stack (onopentagend w s) = stack s"
    by simp
  have c: "trace (onopentagend w s) =
      trace s @ opened @ (if isVoidElement s (tagname s) then closed else [])"
    by (simp add: onopentagend_trace opened_def closed_def)
  have d: "stack (closeCurrentTag w s) = (if onTop then butlast (stack s) else stack s)"
    by (simp add: closeCurrentTag_stack onTop_def)
  have e: "trace (closeCurrentTag w s) = trace (onopentagend w s) @ (if onTop then closed else [])"
    by (simp add: closeCurrentTag_trace onTop_def closed_def)
  have f: "(condition \<longleftrightarrow>
               stack (onselfclosingtag w s) = butlast (stack s) \<and>
               trace (onselfclosingtag w s) = trace s @ opened @ closed) \<and>
           (\<not> condition \<longleftrightarrow>
               stack (onselfclosingtag w s) = stack s \<and>
               trace (onselfclosingtag w s) = trace s @ opened)"
    if "onTop \<and> \<not> isVoidElement s (tagname s)"
  proof -
    from that have "stack s \<noteq> []" by (simp add: onTop_def)
    from butlast_neq [OF this] that show ?thesis
      by (auto simp: a b c d e)
  qed
  have g: "onselfclosingtag w s = onopentagend w s \<and>
           stack (onselfclosingtag w s) = stack s \<and>
           trace (onselfclosingtag w s) = trace s @ opened @ closed"
    if "reachable s \<and> isVoidElement s (tagname s)"
  proof -
    from that have nv: "noVoid s" by (simp add: reachable_noVoid)
    have "\<not> onTop"
    proof
      assume "onTop"
      then have "tagname s \<in> set (stack s)" unfolding onTop_def using last_in_set by metis
      with nv that show False by (simp add: noVoid_def)
    qed
    then have "closeCurrentTag w s = onopentagend w s"
      by (auto simp: closeCurrentTag_def Let_def onTop_def)
    with that show ?thesis by (simp add: a b c)
  qed
  from a b c d e f g svgPathSession_run show ?thesis by blast
qed

theorem self_closing_tag_witness:
  "stack pathOpened \<noteq> [] \<and> last (stack pathOpened) = tagname pathOpened \<and>
   \<not> isVoidElement pathOpened (tagname pathOpened) \<and>
   \<not> xmlMode (options pathOpened) \<and> \<not> recognizeSelfClosing (options pathOpened) \<and>
   last (foreignContext pathOpened) \<and>
   stack (onselfclosingtag () pathOpened) = [''svg''] \<and>
   trace (onselfclosingtag () pathOpened) =
     trace pathOpened @
     [(H_onopentag ''path'' [] (), 5, Some 11), (H_onclosetag ''path'' (), 5, Some 11)] \<and>
   reachable brOpened \<and> isVoidElement brOpened (tagname brOpened) \<and>
   onselfclosingtag () brOpened = onopentagend () brOpened \<and>
   trace (onselfclosingtag () brOpened) =
     trace brOpened @
     [(H_onopentag ''br'' [] (), 0, Some 3), (H_onclosetag ''br'' (), 0, Some 3)]"
proof -
  have r: "reachable brOpened"
    using reachable_feed [OF reachable_new brOpened_run] .
  show ?thesis
    using r self_closing_tag [where s = pathOpened and w = "()"]
      self_closing_tag [where s = brOpened and w = "()"]
    by (simp add: pathOpened_def brOpened_def run_defs)
qed

end
